theory Spec2Isabelle
  imports Complex_Main "HOL-Library.Sublist"
begin

section \<open>Strings\<close>

text \<open>
  A JavaScript string is a sequence of UTF-16 code units; a code unit is modelled as a
  natural number (below 65536 in every string the program builds). Literals of the source
  are ASCII and written as Isabelle strings, converted by \<open>js\<close>.
\<close>

type_synonym jsstring = "nat list"

definition js :: "string \<Rightarrow> jsstring" where
  "js s = map of_char s"

text \<open>Character classification, as ECMAScript defines it on code units.\<close>

definition is_space :: "nat \<Rightarrow> bool" where
  \<comment> \<open>WhiteSpace and LineTerminator: what \<open>\s\<close> matches and \<open>trim\<close> removes\<close>
  "is_space u \<longleftrightarrow>
     u \<in> {9, 10, 11, 12, 13, 32, 160, 5760, 8232, 8233, 8239, 8287, 12288, 65279} \<or>
     (8192 \<le> u \<and> u \<le> 8202)"

definition is_line_terminator :: "nat \<Rightarrow> bool" where
  "is_line_terminator u \<longleftrightarrow> u \<in> {10, 13, 8232, 8233}"

definition is_digit :: "nat \<Rightarrow> bool" where
  "is_digit u \<longleftrightarrow> 48 \<le> u \<and> u \<le> 57"

definition is_lower :: "nat \<Rightarrow> bool" where
  "is_lower u \<longleftrightarrow> 97 \<le> u \<and> u \<le> 122"

definition is_upper :: "nat \<Rightarrow> bool" where
  "is_upper u \<longleftrightarrow> 65 \<le> u \<and> u \<le> 90"

definition is_word :: "nat \<Rightarrow> bool" where
  \<comment> \<open>\<open>\w\<close> is \<open>[A-Za-z0-9_]\<close>\<close>
  "is_word u \<longleftrightarrow> is_lower u \<or> is_upper u \<or> is_digit u \<or> u = 95"

definition trim :: "jsstring \<Rightarrow> jsstring" where
  "trim s = rev (dropWhile is_space (rev (dropWhile is_space s)))"

definition join :: "jsstring \<Rightarrow> jsstring list \<Rightarrow> jsstring" where
  \<comment> \<open>\<open>Array.prototype.join\<close> on an array of strings\<close>
  "join sep xs = (case xs of [] \<Rightarrow> [] | y # ys \<Rightarrow> y @ concat (map (\<lambda>x. sep @ x) ys))"

text \<open>Decimal rendering of a non-negative integer, as a template literal prints it.\<close>

fun digits :: "nat \<Rightarrow> nat \<Rightarrow> jsstring" where
  "digits 0 n = []"
| "digits (Suc fuel) n = (if n < 10 then [48 + n] else digits fuel (n div 10) @ [48 + n mod 10])"

definition show_nat :: "nat \<Rightarrow> jsstring" where
  "show_nat n = digits (Suc n) n"

definition show_int :: "int \<Rightarrow> jsstring" where
  "show_int i = (if i < 0 then js ''-'' @ show_nat (nat (- i)) else show_nat (nat i))"

section \<open>Regular expressions\<close>

text \<open>
  The regular expressions of the source are transcribed into the datatype \<open>rx\<close> and run by
  a backtracking matcher that follows the ECMAScript matcher: alternatives left to
  right, greedy quantifiers longest first, lazy ones shortest first, an iteration of a
  quantifier with minimum 0 that consumes nothing is rejected. The literals and classes of
  the source's patterns are ASCII. Under the flag \<open>i\<close> two code units are compared after
  mapping \<open>a-z\<close> to \<open>A-Z\<close>; ECMAScript never identifies a code unit above 127 with an
  ASCII one, which is all these patterns can observe. No pattern of the source has a
  capturing group inside a quantified group, so the reset of captures at each iteration is
  left out.
\<close>

datatype citem = CChr nat | CRange nat nat | CSpace | CNotSpace | CWord | CDigit

datatype rx =
    Str jsstring                      \<comment> \<open>a literal sequence of characters\<close>
  | Cls bool "citem list"             \<comment> \<open>\<open>[...]\<close>, or \<open>[^...]\<close> when the flag is set\<close>
  | Dot                               \<comment> \<open>\<open>.\<close>\<close>
  | Seq rx rx
  | Alt rx rx
  | Rep nat "nat option" bool rx      \<comment> \<open>\<open>{min,max}\<close>, greedy when the flag is set\<close>
  | Grp nat rx                        \<comment> \<open>capturing group number n\<close>
  | Ref nat                           \<comment> \<open>backreference \<open>\n\<close>\<close>
  | NotAhead rx                       \<comment> \<open>\<open>(?!...)\<close>\<close>
  | Bol                               \<comment> \<open>\<open>^\<close>\<close>
  | Eol                               \<comment> \<open>\<open>$\<close>\<close>
  | WordB                             \<comment> \<open>\<open>\b\<close>\<close>

datatype flags = Flags (icase: bool) (dotall: bool) (multiline: bool)

definition fl_none :: flags where "fl_none = Flags False False False"
definition fl_i :: flags where "fl_i = Flags True False False"
definition fl_is :: flags where "fl_is = Flags True True False"

abbreviation star :: "rx \<Rightarrow> rx" where "star r \<equiv> Rep 0 None True r"
abbreviation plus :: "rx \<Rightarrow> rx" where "plus r \<equiv> Rep 1 None True r"
abbreviation opt :: "rx \<Rightarrow> rx" where "opt r \<equiv> Rep 0 (Some 1) True r"
abbreviation lazy_star :: "rx \<Rightarrow> rx" where "lazy_star r \<equiv> Rep 0 None False r"
abbreviation lit :: "string \<Rightarrow> rx" where "lit cs \<equiv> Str (js cs)"
abbreviation not_chr :: "char \<Rightarrow> rx" where "not_chr c \<equiv> Cls True [CChr (of_char c)]"
abbreviation range :: "char \<Rightarrow> char \<Rightarrow> citem" where "range a b \<equiv> CRange (of_char a) (of_char b)"

fun seq :: "rx list \<Rightarrow> rx" where
  "seq [] = Str []"
| "seq [r] = r"
| "seq (r # rs) = Seq r (seq rs)"

fun alts :: "rx list \<Rightarrow> rx" where
  "alts [] = Str []"
| "alts [r] = r"
| "alts (r # rs) = Alt r (alts rs)"

definition canon :: "nat \<Rightarrow> nat" where
  "canon u = (if is_lower u then u - 32 else u)"

definition eq_unit :: "bool \<Rightarrow> nat \<Rightarrow> nat \<Rightarrow> bool" where
  "eq_unit ic a b = (if ic then canon a = canon b else a = b)"

fun item_match :: "bool \<Rightarrow> citem \<Rightarrow> nat \<Rightarrow> bool" where
  "item_match ic (CChr c) u = eq_unit ic c u"
| "item_match ic (CRange lo hi) u =
     ((lo \<le> u \<and> u \<le> hi) \<or> (ic \<and> (\<exists>v \<in> set [lo ..< Suc hi]. canon v = canon u)))"
| "item_match ic CSpace u = is_space u"
| "item_match ic CNotSpace u = (\<not> is_space u)"
| "item_match ic CWord u = is_word u"
| "item_match ic CDigit u = is_digit u"

definition cls_match :: "bool \<Rightarrow> bool \<Rightarrow> citem list \<Rightarrow> nat \<Rightarrow> bool" where
  "cls_match ic neg items u = ((\<exists>it \<in> set items. item_match ic it u) \<noteq> neg)"

text \<open>
  The matcher state: the input still to be read, the code unit just before it (for \<open>^\<close>
  and \<open>\b\<close>), and the captures made so far, latest first.
\<close>

datatype mstate = MS (rest: jsstring) (prevc: "nat option") (caps: "(nat \<times> jsstring) list")

text \<open>Reading a literal off the input: the input behind it and the last unit read.\<close>

fun strip_lit :: "bool \<Rightarrow> jsstring \<Rightarrow> jsstring \<Rightarrow> nat option \<Rightarrow> (jsstring \<times> nat option) option" where
  "strip_lit ic [] inp p = Some (inp, p)"
| "strip_lit ic (c # cs) [] p = None"
| "strip_lit ic (c # cs) (u # us) p = (if eq_unit ic c u then strip_lit ic cs us (Some u) else None)"

fun shorter :: "jsstring \<Rightarrow> jsstring \<Rightarrow> bool" where
  \<comment> \<open>\<open>length xs < length ys\<close>\<close>
  "shorter xs [] = False"
| "shorter [] (y # ys) = True"
| "shorter (x # xs) (y # ys) = shorter xs ys"

fun consumed :: "jsstring \<Rightarrow> jsstring \<Rightarrow> jsstring" where
  \<comment> \<open>what was read of \<open>inp\<close> when \<open>inp'\<close> is left: \<open>take (length inp - length inp') inp\<close>\<close>
  "consumed inp inp' = (if shorter inp' inp then (case inp of [] \<Rightarrow> [] | u # us \<Rightarrow> u # consumed us inp') else [])"

declare consumed.simps [simp del]

fun rsize :: "rx \<Rightarrow> nat" where
  "rsize (Seq a b) = Suc (rsize a + rsize b)"
| "rsize (Alt a b) = Suc (rsize a + rsize b)"
| "rsize (Rep mn mx g r) = Suc mn * Suc (rsize r)"
| "rsize (Grp n r) = Suc (rsize r)"
| "rsize (NotAhead r) = Suc (rsize r)"
| "rsize r = 0"

text \<open>
  The matcher is written in continuation-passing style, as the ECMAScript specification is:
  \<open>m fl r s k\<close> matches \<open>r\<close> at \<open>s\<close> and hands every way of doing so, in priority order,
  to \<open>k\<close> until \<open>k\<close> succeeds.
\<close>

function m :: "flags \<Rightarrow> rx \<Rightarrow> mstate \<Rightarrow> (mstate \<Rightarrow> mstate option) \<Rightarrow> mstate option" where
  "m fl (Str cs) (MS inp p c) k =
     (case strip_lit (icase fl) cs inp p of None \<Rightarrow> None | Some (inp', p') \<Rightarrow> k (MS inp' p' c))"
| "m fl (Cls neg items) (MS [] p c) k = None"
| "m fl (Cls neg items) (MS (u # us) p c) k =
     (if cls_match (icase fl) neg items u then k (MS us (Some u) c) else None)"
| "m fl Dot (MS [] p c) k = None"
| "m fl Dot (MS (u # us) p c) k =
     (if dotall fl \<or> \<not> is_line_terminator u then k (MS us (Some u) c) else None)"
| "m fl (Seq a b) s k = m fl a s (\<lambda>s'. m fl b s' k)"
| "m fl (Alt a b) s k = (case m fl a s k of Some res \<Rightarrow> Some res | None \<Rightarrow> m fl b s k)"
| "m fl (Rep mn mx g r) s k =
     (if mx = Some 0 then k s
      else if 0 < mn then
        m fl r s (\<lambda>s'. m fl (Rep (mn - 1) (map_option (\<lambda>x. x - 1) mx) g r) s' k)
      else if g then
        (case m fl r s (\<lambda>s'. if shorter (rest s') (rest s)
                              then m fl (Rep 0 (map_option (\<lambda>x. x - 1) mx) g r) s' k
                              else None) of
           Some res \<Rightarrow> Some res
         | None \<Rightarrow> k s)
      else
        (case k s of
           Some res \<Rightarrow> Some res
         | None \<Rightarrow> m fl r s (\<lambda>s'. if shorter (rest s') (rest s)
                                    then m fl (Rep 0 (map_option (\<lambda>x. x - 1) mx) g r) s' k
                                    else None)))"
| "m fl (Grp n r) (MS inp p c) k =
     m fl r (MS inp p c) (\<lambda>s'. k (MS (rest s') (prevc s') ((n, consumed inp (rest s')) # caps s')))"
| "m fl (Ref n) (MS inp p c) k =
     (case map_of c n of
        None \<Rightarrow> k (MS inp p c)
      | Some t \<Rightarrow> (case strip_lit (icase fl) t inp p of
                    None \<Rightarrow> None
                  | Some (inp', p') \<Rightarrow> k (MS inp' p' c)))"
| "m fl (NotAhead r) s k = (case m fl r s Some of Some res \<Rightarrow> None | None \<Rightarrow> k s)"
| "m fl Bol s k =
     (if (case prevc s of None \<Rightarrow> True | Some u \<Rightarrow> multiline fl \<and> is_line_terminator u)
      then k s else None)"
| "m fl Eol s k =
     (if (case rest s of [] \<Rightarrow> True | u # us \<Rightarrow> multiline fl \<and> is_line_terminator u)
      then k s else None)"
| "m fl WordB s k =
     (if (case prevc s of None \<Rightarrow> False | Some u \<Rightarrow> is_word u) \<noteq>
         (case rest s of [] \<Rightarrow> False | u # us \<Rightarrow> is_word u)
      then k s else None)"
  by pat_completeness auto
termination
proof -
  have sl: "shorter xs ys \<longleftrightarrow> length xs < length ys" for xs ys
    by (induction xs ys rule: shorter.induct) auto
  show ?thesis
    by (relation "inv_image (less_than <*lex*> less_than) (\<lambda>(fl, r, s, k). (rsize r, length (rest s)))")
       (auto simp: sl)
qed

subsection \<open>The engine that runs the matcher\<close>

text \<open>
  The matcher above is the ECMAScript semantics, in which an attempt to match always ends with
  a match or a failure. An implementation keeps the positions it may have to return to on a
  backtracking stack of bounded size, and an attempt that exhausts it throws a \<open>RangeError\<close>.
  How large that stack is and what a pattern puts on it belong to the platform, not to the
  source, and are a parameter here: \<open>eng fl r prev inp\<close> holds when the attempt to match
  \<open>r\<close> at the input \<open>inp\<close>, \<open>prev\<close> being the code unit before it, exhausts the stack.
  \<open>ample\<close> is an engine that never does.
\<close>

datatype error = TypeError | RangeError | SyntaxError | Rejected

type_synonym engine = "flags \<Rightarrow> rx \<Rightarrow> nat option \<Rightarrow> jsstring \<Rightarrow> bool"

definition ample :: engine where
  "ample fl r prev inp = False"

definition attempt :: "engine \<Rightarrow> flags \<Rightarrow> rx \<Rightarrow> nat option \<Rightarrow> jsstring \<Rightarrow> error + mstate option" where
  "attempt eng fl r prev inp =
     (if eng fl r prev inp then Inl RangeError else Inr (m fl r (MS inp prev []) Some))"

text \<open>Sequencing of two computations that can raise.\<close>

fun bnd :: "error + 'a \<Rightarrow> ('a \<Rightarrow> error + 'b) \<Rightarrow> error + 'b" where
  "bnd (Inl e) f = Inl e"
| "bnd (Inr v) f = f v"

subsection \<open>The operations of \<open>RegExp\<close> and \<open>String\<close> built on the matcher\<close>

text \<open>
  The leftmost match at or after the start of \<open>inp\<close>: the text skipped before it and the
  final matcher state. The pattern is attempted at one position after the other.
\<close>

fun rx_search ::
  "engine \<Rightarrow> flags \<Rightarrow> rx \<Rightarrow> nat option \<Rightarrow> jsstring \<Rightarrow> error + (jsstring \<times> mstate) option" where
  "rx_search eng fl r prev [] =
     (case attempt eng fl r prev [] of
        Inl e \<Rightarrow> Inl e
      | Inr found \<Rightarrow> Inr (map_option (Pair []) found))"
| "rx_search eng fl r prev (u # us) =
     (case attempt eng fl r prev (u # us) of
        Inl e \<Rightarrow> Inl e
      | Inr (Some s') \<Rightarrow> Inr (Some ([], s'))
      | Inr None \<Rightarrow>
          (case rx_search eng fl r (Some u) us of
             Inl e \<Rightarrow> Inl e
           | Inr found \<Rightarrow> Inr (map_option (\<lambda>(sk, s'). (u # sk, s')) found)))"

text \<open>
  A match result: the text before the match, the match (\<open>match[0]\<close>), the captures, the
  text after the match, and the code unit just before that text.
\<close>

datatype rmatch =
  RMatch (before: jsstring) (matched: jsstring) (groups: "(nat \<times> jsstring) list")
         (after: jsstring) (after_prev: "nat option")

definition mk_match :: "jsstring \<Rightarrow> jsstring \<Rightarrow> mstate \<Rightarrow> rmatch" where
  "mk_match str sk s' =
     RMatch sk (consumed (drop (length sk) str) (rest s')) (caps s')
            (drop (length sk + length (consumed (drop (length sk) str) (rest s'))) str) (prevc s')"

definition rx_exec :: "engine \<Rightarrow> flags \<Rightarrow> rx \<Rightarrow> nat option \<Rightarrow> jsstring \<Rightarrow> error + rmatch option" where
  "rx_exec eng fl r prev str =
     (case rx_search eng fl r prev str of
        Inl e \<Rightarrow> Inl e
      | Inr found \<Rightarrow> Inr (map_option (\<lambda>(sk, s'). mk_match str sk s') found))"

definition grp :: "rmatch \<Rightarrow> nat \<Rightarrow> jsstring option" where
  \<comment> \<open>\<open>match[n]\<close>: \<open>None\<close> is \<open>undefined\<close>\<close>
  "grp mt n = map_of (groups mt) n"

definition dollar :: "rmatch \<Rightarrow> nat \<Rightarrow> jsstring" where
  \<comment> \<open>\<open>$n\<close> in a replacement string: the capture, or nothing when it is undefined\<close>
  "dollar mt n = (case grp mt n of None \<Rightarrow> [] | Some t \<Rightarrow> t)"

definition rx_test :: "engine \<Rightarrow> flags \<Rightarrow> rx \<Rightarrow> jsstring \<Rightarrow> error + bool" where
  "rx_test eng fl r str =
     (case rx_search eng fl r None str of Inl e \<Rightarrow> Inl e | Inr found \<Rightarrow> Inr (found \<noteq> None))"

text \<open>
  \<open>str.replace(/r/g, replacement)\<close>: after a match the search resumes behind it, one code
  unit further when the match was empty. The replacement is computed by \<open>f\<close> from the
  match; a replacement function of the source can raise, and the exception leaves \<open>replace\<close>,
  as does the \<open>RangeError\<close> of the engine.
\<close>

function replace_all_fn ::
  "engine \<Rightarrow> flags \<Rightarrow> rx \<Rightarrow> (rmatch \<Rightarrow> error + jsstring) \<Rightarrow> nat option \<Rightarrow> jsstring \<Rightarrow> error + jsstring" where
  "replace_all_fn eng fl r f prev str =
     (case rx_exec eng fl r prev str of
        Inl e \<Rightarrow> Inl e
      | Inr None \<Rightarrow> Inr str
      | Inr (Some mt) \<Rightarrow>
          (case f mt of
             Inl e \<Rightarrow> Inl e
           | Inr rep \<Rightarrow>
               (if matched mt = []
                then (case after mt of
                        [] \<Rightarrow> Inr (before mt @ rep)
                      | u # us \<Rightarrow>
                          (case replace_all_fn eng fl r f (Some u) us of
                             Inl e \<Rightarrow> Inl e
                           | Inr out \<Rightarrow> Inr (before mt @ rep @ u # out)))
                else (case replace_all_fn eng fl r f (after_prev mt) (after mt) of
                        Inl e \<Rightarrow> Inl e
                      | Inr out \<Rightarrow> Inr (before mt @ rep @ out)))))"
  by pat_completeness auto
termination
proof (relation "measure (\<lambda>(eng, fl, r, f, prev, str). length str)")
  show "wf (measure (\<lambda>(eng, fl, r, f, prev, str). length str))" by simp
next
  fix eng :: engine and fl :: flags and r f and prev :: "nat option" and str found mt u us
  assume e: "rx_exec eng fl r prev str = Inr found" "found = Some mt"
    and "matched mt = []" and "after mt = u # us"
  from e have "length (after mt) \<le> length str"
    by (auto simp: rx_exec_def mk_match_def split: sum.splits)
  with \<open>after mt = u # us\<close>
  show "((eng, fl, r, f, Some u, us), (eng, fl, r, f, prev, str))
      \<in> measure (\<lambda>(eng, fl, r, f, prev, str). length str)"
    by simp
next
  fix eng :: engine and fl :: flags and r f and prev :: "nat option" and str found mt
  assume e: "rx_exec eng fl r prev str = Inr found" "found = Some mt" and ne: "matched mt \<noteq> []"
  have c: "consumed xs ys \<noteq> [] \<Longrightarrow> xs \<noteq> []" for xs ys
    by (subst (asm) consumed.simps) (auto split: if_splits)
  from e obtain x where x: "mt = mk_match str (fst x) (snd x)"
    by (auto simp: rx_exec_def split: sum.splits)
  have mt: "matched mt = consumed (drop (length (fst x)) str) (rest (snd x))"
           "after mt = drop (length (fst x) + length (matched mt)) str"
    by (simp_all add: x mk_match_def)
  from ne mt(1) have "drop (length (fst x)) str \<noteq> []" by (auto dest: c)
  then have "str \<noteq> []" by auto
  moreover from ne have "0 < length (matched mt)" by simp
  ultimately have "length (after mt) < length str" unfolding mt(2) by simp
  then show "((eng, fl, r, f, after_prev mt, after mt), (eng, fl, r, f, prev, str))
      \<in> measure (\<lambda>(eng, fl, r, f, prev, str). length str)"
    by simp
qed

declare replace_all_fn.simps [simp del]

text \<open>The same with a replacement string, its \<open>$n\<close> expanded by \<open>f\<close>.\<close>

definition replace_all ::
  "engine \<Rightarrow> flags \<Rightarrow> rx \<Rightarrow> (rmatch \<Rightarrow> jsstring) \<Rightarrow> nat option \<Rightarrow> jsstring \<Rightarrow> error + jsstring" where
  "replace_all eng fl r f prev str = replace_all_fn eng fl r (\<lambda>mt. Inr (f mt)) prev str"

text \<open>
  \<open>str.split(/r/)\<close> for a separator without capturing groups: the separator is tried at
  each position \<open>q\<close> in turn (not searched for); a match that ends where the current piece
  starts is skipped. \<open>piece\<close> is the text from the start of the current piece to \<open>q\<close>.
\<close>

function split_loop ::
  "engine \<Rightarrow> flags \<Rightarrow> rx \<Rightarrow> nat option \<Rightarrow> jsstring \<Rightarrow> jsstring \<Rightarrow> error + jsstring list" where
  "split_loop eng fl r prev piece [] = Inr [piece]"
| "split_loop eng fl r prev piece (u # us) =
     (case attempt eng fl r prev (u # us) of
        Inl e \<Rightarrow> Inl e
      | Inr None \<Rightarrow> split_loop eng fl r (Some u) (piece @ [u]) us
      | Inr (Some s') \<Rightarrow>
          (if shorter (rest s') (u # us)
           then (case split_loop eng fl r (prevc s') []
                        (drop (length (consumed (u # us) (rest s'))) (u # us)) of
                   Inl e \<Rightarrow> Inl e
                 | Inr pieces \<Rightarrow> Inr (piece # pieces))
           else if piece = [] then split_loop eng fl r (Some u) [u] us
           else (case split_loop eng fl r (Some u) [u] us of
                   Inl e \<Rightarrow> Inl e
                 | Inr pieces \<Rightarrow> Inr (piece # pieces))))"
  by pat_completeness auto
termination
proof -
  have sl: "shorter xs ys \<longleftrightarrow> length xs < length ys" for xs ys
    by (induction xs ys rule: shorter.induct) auto
  show ?thesis
    by (relation "measure (\<lambda>(eng, fl, r, prev, piece, str). length str)")
       (auto simp: sl consumed.simps)
qed

definition split_rx :: "engine \<Rightarrow> flags \<Rightarrow> rx \<Rightarrow> jsstring \<Rightarrow> error + jsstring list" where
  "split_rx eng fl r str =
     (if str = []
      then (case attempt eng fl r None [] of
              Inl e \<Rightarrow> Inl e
            | Inr found \<Rightarrow> Inr (if found = None then [[]] else []))
      else split_loop eng fl r None [] str)"

text \<open>\<open>str.split(sep)\<close> for a separator of one code unit.\<close>

fun split_unit :: "nat \<Rightarrow> jsstring \<Rightarrow> jsstring list" where
  "split_unit c [] = [[]]"
| "split_unit c (u # us) =
     (if u = c then [] # split_unit c us
      else (case split_unit c us of [] \<Rightarrow> [[u]] | p # ps \<Rightarrow> (u # p) # ps))"

section \<open>HTML to Markdown (utils/html-to-markdown.ts)\<close>

subsection \<open>Documents and options\<close>

text \<open>
  The DOM tree that \<open>convertNode\<close> walks: text nodes, elements (tag name in lower case,
  attributes, children) and the other node types (comments), which convert to nothing.
\<close>

datatype node =
    Text jsstring
  | Element string "(string \<times> jsstring) list" "node list"
  | Comment jsstring

text \<open>
  \<open>HTMLToMarkdownOptions\<close>: every field is optional; \<open>None\<close> is an absent key. The
  converter works on \<open>{ ...defaultOptions, ...options }\<close>, in which every key is set.
\<close>

record options =
  o_preserveLineBreaks :: "bool option"
  o_convertImages :: "bool option"
  o_convertLinks :: "bool option"
  o_stripScripts :: "bool option"
  o_customHandlers :: "(string \<times> (node \<Rightarrow> jsstring)) list option"

record opts =
  preserveLineBreaks :: bool
  convertImages :: bool
  convertLinks :: bool
  stripScripts :: bool
  customHandlers :: "(string \<times> (node \<Rightarrow> jsstring)) list"

definition defaultOptions :: opts where
  "defaultOptions =
     \<lparr>preserveLineBreaks = True, convertImages = True, convertLinks = True, stripScripts = True,
      customHandlers = []\<rparr>"

definition no_options :: options where
  \<comment> \<open>the default argument \<open>{}\<close>\<close>
  "no_options =
     \<lparr>o_preserveLineBreaks = None, o_convertImages = None, o_convertLinks = None,
      o_stripScripts = None, o_customHandlers = None\<rparr>"

definition spread :: "opts \<Rightarrow> options \<Rightarrow> opts" where
  "spread d o' =
     \<lparr>preserveLineBreaks = (case o_preserveLineBreaks o' of None \<Rightarrow> preserveLineBreaks d | Some b \<Rightarrow> b),
      convertImages = (case o_convertImages o' of None \<Rightarrow> convertImages d | Some b \<Rightarrow> b),
      convertLinks = (case o_convertLinks o' of None \<Rightarrow> convertLinks d | Some b \<Rightarrow> b),
      stripScripts = (case o_stripScripts o' of None \<Rightarrow> stripScripts d | Some b \<Rightarrow> b),
      customHandlers = (case o_customHandlers o' of None \<Rightarrow> customHandlers d | Some h \<Rightarrow> h)\<rparr>"

subsection \<open>Entities\<close>

text \<open>
  \<open>String.fromCharCode(parseInt(digits, radix))\<close>. \<open>parseInt\<close> yields the double nearest
  to the numeral (exact below \<open>2^53\<close>, infinite from \<open>2^1024 - 2^970\<close> on) and
  \<open>fromCharCode\<close> reduces it modulo \<open>2^16\<close>, infinity to 0.
\<close>

definition digit_val :: "nat \<Rightarrow> nat" where
  "digit_val u = (if is_digit u then u - 48 else if is_lower u then u - 87 else u - 55)"

definition parse_radix :: "nat \<Rightarrow> jsstring \<Rightarrow> nat" where
  "parse_radix radix ds = foldl (\<lambda>acc u. radix * acc + digit_val u) 0 ds"

function bitlen :: "nat \<Rightarrow> nat" where
  "bitlen n = (if n = 0 then 0 else Suc (bitlen (n div 2)))"
  by pat_completeness auto
termination
  by (relation "measure id") auto

declare bitlen.simps [simp del]

definition nearest_double :: "nat \<Rightarrow> nat option" where
  \<comment> \<open>round to nearest, ties to even, on 53 bits; \<open>None\<close> is \<open>Infinity\<close>\<close>
  "nearest_double n =
     (if n < 2 ^ 53 then Some n
      else (let sh = bitlen n - 53; q = n div 2 ^ sh; r = n mod 2 ^ sh; h = 2 ^ (sh - 1);
                q' = (if h < r \<or> (r = h \<and> odd q) then q + 1 else q)
            in if 2 ^ 1024 \<le> q' * 2 ^ sh then None else Some (q' * 2 ^ sh)))"

definition fromCharCode :: "nat option \<Rightarrow> jsstring" where
  "fromCharCode d = (case d of None \<Rightarrow> [0] | Some n \<Rightarrow> [n mod 65536])"

definition entities :: "(string \<times> jsstring) list" where
  \<comment> \<open>the record \<open>entities\<close>, in insertion order\<close>
  "entities =
     [(''&amp;'', js ''&''), (''&lt;'', js ''<''), (''&gt;'', js ''>''), (''&quot;'', [34]),
      (''&#39;'', [39]), (''&apos;'', [39]), (''&nbsp;'', js '' ''), (''&mdash;'', [8212]),
      (''&ndash;'', [8211]), (''&hellip;'', [8230]), (''&copy;'', [169]), (''&reg;'', [174]),
      (''&trade;'', [8482])]"

fun replace_entities :: "engine \<Rightarrow> (string \<times> jsstring) list \<Rightarrow> jsstring \<Rightarrow> error + jsstring" where
  \<comment> \<open>the loop \<open>for (const [entity, char] of Object.entries(entities))\<close>\<close>
  "replace_entities eng [] result = Inr result"
| "replace_entities eng (ec # es) result =
     bnd (replace_all eng fl_none (lit (fst ec)) (\<lambda>mt. snd ec) None result) (replace_entities eng es)"

definition decodeHTMLEntities :: "engine \<Rightarrow> jsstring \<Rightarrow> error + jsstring" where
  \<comment> \<open>the numeric patterns are \<open>/&#(\d+);/g\<close> and \<open>/&#x([0-9a-f]+);/gi\<close>\<close>
  "decodeHTMLEntities eng txt =
     bnd (replace_entities eng entities txt)
       (\<lambda>result.
          bnd (replace_all eng fl_none (seq [lit ''&#'', Grp 1 (plus (Cls False [CDigit])), lit '';''])
                 (\<lambda>mt. case grp mt 1 of None \<Rightarrow> [0]
                        | Some num \<Rightarrow> fromCharCode (nearest_double (parse_radix 10 num)))
                 None result)
            (replace_all eng fl_i
               (seq [lit ''&#x'',
                     Grp 1 (plus (Cls False [range CHR ''0'' CHR ''9'', range CHR ''a'' CHR ''f''])),
                     lit '';''])
               (\<lambda>mt. case grp mt 1 of None \<Rightarrow> [0]
                      | Some hex \<Rightarrow> fromCharCode (nearest_double (parse_radix 16 hex)))
               None))"

subsection \<open>The pattern-substitution strategy: \<open>serverSideConvert\<close>\<close>

definition quot :: rx where
  \<comment> \<open>\<open>["']\<close>\<close>
  "quot = Cls False [CChr 34, CChr 39]"

definition not_quot :: rx where
  \<comment> \<open>\<open>[^"']\<close>\<close>
  "not_quot = Cls True [CChr 34, CChr 39]"

definition tag_rx :: "string \<Rightarrow> rx" where
  \<comment> \<open>\<open><tag[^>]*>(.*?)<\/tag>\<close>\<close>
  "tag_rx tag =
     seq [lit (''<'' @ tag), star (not_chr CHR ''>''), lit ''>'', Grp 1 (lazy_star Dot),
          lit (''</'' @ tag @ ''>'')]"

definition block_rx :: "string \<Rightarrow> rx" where
  \<comment> \<open>\<open><tag\b[^<]*(?:(?!<\/tag>)<[^<]*)*<\/tag>\<close>, for \<open>script\<close> and \<open>style\<close>\<close>
  "block_rx tag =
     seq [lit (''<'' @ tag), WordB, star (not_chr CHR ''<''),
          star (seq [NotAhead (lit (''</'' @ tag @ ''>'')), lit ''<'', star (not_chr CHR ''<'')]),
          lit (''</'' @ tag @ ''>'')]"

definition pair_rx :: "string \<Rightarrow> string \<Rightarrow> rx" where
  \<comment> \<open>\<open><(a|b)[^>]*>(.*?)<\/\1>\<close>\<close>
  "pair_rx a b =
     seq [lit ''<'', Grp 1 (Alt (lit a) (lit b)), star (not_chr CHR ''>''), lit ''>'',
          Grp 2 (lazy_star Dot), lit ''</'', Ref 1, lit ''>'']"

definition link_rx :: rx where
  \<comment> \<open>\<open><a[^>]*href=["']([^"']*)["'][^>]*>(.*?)<\/a>\<close>\<close>
  "link_rx =
     seq [lit ''<a'', star (not_chr CHR ''>''), lit ''href='', quot, Grp 1 (star not_quot), quot,
          star (not_chr CHR ''>''), lit ''>'', Grp 2 (lazy_star Dot), lit ''</a>'']"

definition img_rx :: "string \<Rightarrow> string \<Rightarrow> rx" where
  \<comment> \<open>\<open><img[^>]*x=["']([^"']*)["'][^>]*y=["']([^"']*)["'][^>]*\/?>\<close>\<close>
  "img_rx x y =
     seq [lit ''<img'', star (not_chr CHR ''>''), lit (x @ ''=''), quot, Grp 1 (star not_quot), quot,
          star (not_chr CHR ''>''), lit (y @ ''=''), quot, Grp 2 (star not_quot), quot,
          star (not_chr CHR ''>''), opt (lit ''/''), lit ''>'']"

definition img_src_rx :: rx where
  \<comment> \<open>\<open><img[^>]*src=["']([^"']*)["'][^>]*\/?>\<close>\<close>
  "img_src_rx =
     seq [lit ''<img'', star (not_chr CHR ''>''), lit ''src='', quot, Grp 1 (star not_quot), quot,
          star (not_chr CHR ''>''), opt (lit ''/''), lit ''>'']"

definition open_rx :: "string \<Rightarrow> rx" where
  \<comment> \<open>\<open><tag[^>]*>\<close>\<close>
  "open_rx tag = seq [lit (''<'' @ tag), star (not_chr CHR ''>''), lit ''>'']"

definition any_tag_rx :: rx where
  \<comment> \<open>\<open><[^>]+>\<close>\<close>
  "any_tag_rx = seq [lit ''<'', plus (not_chr CHR ''>''), lit ''>'']"

definition heading_repl :: "nat \<Rightarrow> rmatch \<Rightarrow> jsstring" where
  \<comment> \<open>\<open>'\n# $1\n'\<close> with n number signs\<close>
  "heading_repl n mt = js ''\<newline>'' @ replicate n 35 @ js '' '' @ dollar mt 1 @ js ''\<newline>''"

definition blockquote_fn :: "engine \<Rightarrow> rmatch \<Rightarrow> error + jsstring" where
  \<comment> \<open>\<open>(_, content) => '\n> ' + content.trim().replace(/\n/g, '\n> ') + '\n'\<close>\<close>
  "blockquote_fn eng mt =
     (case grp mt 1 of
        None \<Rightarrow> Inl TypeError
      | Some content \<Rightarrow>
          bnd (replace_all eng fl_none (lit ''\<newline>'') (\<lambda>mt. js ''\<newline>> '') None (trim content))
            (\<lambda>quoted. Inr (js ''\<newline>> '' @ quoted @ js ''\<newline>'')))"

text \<open>
  \<open>serverSideConvert\<close> reassigns \<open>markdown\<close> statement by statement; the model runs the
  statements in order, each a function of the current value of \<open>markdown\<close>. A statement
  raises when the engine does, and the replacement function of the blockquote statement
  raises on an undefined capture.
\<close>

fun run_steps :: "(jsstring \<Rightarrow> error + jsstring) list \<Rightarrow> jsstring \<Rightarrow> error + jsstring" where
  "run_steps [] markdown = Inr markdown"
| "run_steps (f # fs) markdown = (case f markdown of Inl e \<Rightarrow> Inl e | Inr markdown' \<Rightarrow> run_steps fs markdown')"

definition ok :: "(jsstring \<Rightarrow> jsstring) \<Rightarrow> jsstring \<Rightarrow> error + jsstring" where
  "ok f markdown = Inr (f markdown)"

definition when_opt :: "bool \<Rightarrow> (jsstring \<Rightarrow> error + jsstring) \<Rightarrow> jsstring \<Rightarrow> error + jsstring" where
  \<comment> \<open>\<open>if (b) { markdown = f(markdown) }\<close>\<close>
  "when_opt b f markdown = (if b then f markdown else Inr markdown)"

definition serverSideConvert :: "engine \<Rightarrow> jsstring \<Rightarrow> opts \<Rightarrow> error + jsstring" where
  "serverSideConvert eng html opts =
     run_steps
      [\<comment> \<open>Strip scripts and styles\<close>
       when_opt (stripScripts opts) (replace_all eng fl_i (block_rx ''script'') (\<lambda>mt. []) None),
       when_opt (stripScripts opts) (replace_all eng fl_i (block_rx ''style'') (\<lambda>mt. []) None),
       \<comment> \<open>Headings\<close>
       replace_all eng fl_i (tag_rx ''h1'') (heading_repl 1) None,
       replace_all eng fl_i (tag_rx ''h2'') (heading_repl 2) None,
       replace_all eng fl_i (tag_rx ''h3'') (heading_repl 3) None,
       replace_all eng fl_i (tag_rx ''h4'') (heading_repl 4) None,
       replace_all eng fl_i (tag_rx ''h5'') (heading_repl 5) None,
       replace_all eng fl_i (tag_rx ''h6'') (heading_repl 6) None,
       \<comment> \<open>Bold and italic\<close>
       replace_all eng fl_i (pair_rx ''strong'' ''b'') (\<lambda>mt. js ''**'' @ dollar mt 2 @ js ''**'') None,
       replace_all eng fl_i (pair_rx ''em'' ''i'') (\<lambda>mt. js ''*'' @ dollar mt 2 @ js ''*'') None,
       \<comment> \<open>Links\<close>
       when_opt (convertLinks opts)
         (replace_all eng fl_i link_rx
            (\<lambda>mt. js ''['' @ dollar mt 2 @ js '']('' @ dollar mt 1 @ js '')'') None),
       \<comment> \<open>Images\<close>
       when_opt (convertImages opts)
         (replace_all eng fl_i (img_rx ''src'' ''alt'')
            (\<lambda>mt. js ''!['' @ dollar mt 2 @ js '']('' @ dollar mt 1 @ js '')'') None),
       when_opt (convertImages opts)
         (replace_all eng fl_i (img_rx ''alt'' ''src'')
            (\<lambda>mt. js ''!['' @ dollar mt 1 @ js '']('' @ dollar mt 2 @ js '')'') None),
       when_opt (convertImages opts)
         (replace_all eng fl_i img_src_rx (\<lambda>mt. js ''![]('' @ dollar mt 1 @ js '')'') None),
       \<comment> \<open>Lists\<close>
       replace_all eng fl_i (open_rx ''ul'') (\<lambda>mt. js ''\<newline>'') None,
       replace_all eng fl_i (lit ''</ul>'') (\<lambda>mt. js ''\<newline>'') None,
       replace_all eng fl_i (open_rx ''ol'') (\<lambda>mt. js ''\<newline>'') None,
       replace_all eng fl_i (lit ''</ol>'') (\<lambda>mt. js ''\<newline>'') None,
       replace_all eng fl_i (tag_rx ''li'') (\<lambda>mt. js ''- '' @ dollar mt 1 @ js ''\<newline>'') None,
       \<comment> \<open>Blockquotes\<close>
       replace_all_fn eng fl_is (tag_rx ''blockquote'') (blockquote_fn eng) None,
       \<comment> \<open>Code blocks\<close>
       replace_all eng fl_is
         (seq [lit ''<pre'', star (not_chr CHR ''>''), lit ''><code'', star (not_chr CHR ''>''),
               lit ''>'', Grp 1 (lazy_star Dot), lit ''</code></pre>''])
         (\<lambda>mt. js ''\<newline>```\<newline>'' @ dollar mt 1 @ js ''\<newline>```\<newline>'') None,
       replace_all eng fl_i (tag_rx ''code'') (\<lambda>mt. js ''`'' @ dollar mt 1 @ js ''`'') None,
       \<comment> \<open>Paragraphs and line breaks\<close>
       replace_all eng fl_is (tag_rx ''p'') (\<lambda>mt. js ''\<newline>'' @ dollar mt 1 @ js ''\<newline>'') None,
       replace_all eng fl_i (seq [lit ''<br'', star (Cls False [CSpace]), opt (lit ''/''), lit ''>''])
         (\<lambda>mt. js ''\<newline>'') None,
       \<comment> \<open>Horizontal rules\<close>
       replace_all eng fl_i (seq [lit ''<hr'', star (not_chr CHR ''>''), opt (lit ''/''), lit ''>''])
         (\<lambda>mt. js ''\<newline>---\<newline>'') None,
       \<comment> \<open>Strip remaining HTML tags\<close>
       replace_all eng fl_none any_tag_rx (\<lambda>mt. []) None,
       \<comment> \<open>Decode HTML entities\<close>
       decodeHTMLEntities eng,
       \<comment> \<open>Clean up whitespace\<close>
       replace_all eng fl_none (Rep 3 None True (lit ''\<newline>'')) (\<lambda>mt. js ''\<newline>\<newline>'') None,
       ok trim]
      html"

subsection \<open>The structural strategy: \<open>convertNode\<close>\<close>

fun textContent :: "node \<Rightarrow> jsstring" where
  "textContent (Text t) = t"
| "textContent (Comment c) = []"
| "textContent (Element tag attrs kids) = concat (map textContent kids)"

fun subnodes :: "node \<Rightarrow> node list" where
  \<comment> \<open>the descendants, in document order\<close>
  "subnodes (Element tag attrs kids) = concat (map (\<lambda>k. k # subnodes k) kids)"
| "subnodes n = []"

fun has_tag :: "string list \<Rightarrow> node \<Rightarrow> bool" where
  "has_tag tags (Element tag attrs kids) = (tag \<in> set tags)"
| "has_tag tags n = False"

definition querySelectorAll :: "string list \<Rightarrow> node \<Rightarrow> node list" where
  \<comment> \<open>for a selector that is a list of tag names\<close>
  "querySelectorAll tags n = filter (has_tag tags) (subnodes n)"

fun attributes :: "node \<Rightarrow> (string \<times> jsstring) list" where
  "attributes (Element tag attrs kids) = attrs"
| "attributes n = []"

definition getAttribute :: "(string \<times> jsstring) list \<Rightarrow> string \<Rightarrow> jsstring" where
  \<comment> \<open>\<open>element.getAttribute(name) || ''\<close>\<close>
  "getAttribute attrs name = (case map_of attrs name of None \<Rightarrow> [] | Some v \<Rightarrow> v)"

fun table_rows :: "node list \<Rightarrow> nat \<Rightarrow> bool \<Rightarrow> jsstring" where
  "table_rows [] index headerProcessed = []"
| "table_rows (row # rows) index headerProcessed =
     js ''| '' @ join (js '' | '') (map (\<lambda>cell. trim (textContent cell)) (querySelectorAll [''th'', ''td''] row)) @
     js '' |\<newline>'' @
     (if \<not> headerProcessed \<and> (querySelectorAll [''th''] row \<noteq> [] \<or> index = 0)
      then js ''| '' @ join (js '' | '') (map (\<lambda>cell. js ''---'') (querySelectorAll [''th'', ''td''] row)) @
           js '' |\<newline>'' @ table_rows rows (index + 1) True
      else table_rows rows (index + 1) headerProcessed)"

definition convertTable :: "node \<Rightarrow> jsstring" where
  "convertTable table =
     (if querySelectorAll [''tr''] table = [] then []
      else js ''\<newline>'' @ table_rows (querySelectorAll [''tr''] table) 0 False @ js ''\<newline>'')"

definition code_lang :: "engine \<Rightarrow> node \<Rightarrow> error + jsstring" where
  \<comment> \<open>\<open>codeElement.className.match(/language-(\w+)/)?.[1] || ''\<close>\<close>
  "code_lang eng codeElement =
     bnd (rx_exec eng fl_none (seq [lit ''language-'', Grp 1 (plus (Cls False [CWord]))]) None
            (getAttribute (attributes codeElement) ''class''))
       (\<lambda>found. Inr (case found of None \<Rightarrow> [] | Some mt \<Rightarrow> dollar mt 1))"

definition convertPre :: "engine \<Rightarrow> node \<Rightarrow> jsstring \<Rightarrow> error + jsstring" where
  "convertPre eng element childContent =
     (case querySelectorAll [''code''] element of
        [] \<Rightarrow> Inr (js ''\<newline>```\<newline>'' @ trim childContent @ js ''\<newline>```\<newline>'')
      | codeElement # _ \<Rightarrow>
          bnd (code_lang eng codeElement)
            (\<lambda>lang. Inr (js ''\<newline>```'' @ lang @ js ''\<newline>'' @
                          trim (if textContent codeElement = [] then childContent
                                else textContent codeElement) @
                          js ''\<newline>```\<newline>'')))"

text \<open>The \<open>switch\<close> on the tag name, given the converted children.\<close>

definition convertElement ::
  "engine \<Rightarrow> opts \<Rightarrow> string option \<Rightarrow> string \<Rightarrow> (string \<times> jsstring) list \<Rightarrow> node list \<Rightarrow> jsstring \<Rightarrow>
   error + jsstring" where
  "convertElement eng opts parent tag attrs kids childContent =
     (if tag = ''h1'' then Inr (js ''\<newline># '' @ trim childContent @ js ''\<newline>'')
      else if tag = ''h2'' then Inr (js ''\<newline>## '' @ trim childContent @ js ''\<newline>'')
      else if tag = ''h3'' then Inr (js ''\<newline>### '' @ trim childContent @ js ''\<newline>'')
      else if tag = ''h4'' then Inr (js ''\<newline>#### '' @ trim childContent @ js ''\<newline>'')
      else if tag = ''h5'' then Inr (js ''\<newline>##### '' @ trim childContent @ js ''\<newline>'')
      else if tag = ''h6'' then Inr (js ''\<newline>###### '' @ trim childContent @ js ''\<newline>'')
      else if tag = ''p'' then Inr (js ''\<newline>'' @ trim childContent @ js ''\<newline>'')
      else if tag = ''br'' then Inr (if preserveLineBreaks opts then js ''\<newline>'' else js '' '')
      else if tag = ''strong'' \<or> tag = ''b'' then Inr (js ''**'' @ childContent @ js ''**'')
      else if tag = ''em'' \<or> tag = ''i'' then Inr (js ''*'' @ childContent @ js ''*'')
      else if tag = ''u'' then Inr (js ''_'' @ childContent @ js ''_'')
      else if tag = ''s'' \<or> tag = ''strike'' \<or> tag = ''del'' then Inr (js ''~~'' @ childContent @ js ''~~'')
      else if tag = ''a'' then
        Inr (if convertLinks opts
             then js ''['' @ childContent @ js '']('' @ getAttribute attrs ''href'' @ js '')''
             else childContent)
      else if tag = ''img'' then
        Inr (if convertImages opts
             then js ''!['' @ getAttribute attrs ''alt'' @ js '']('' @ getAttribute attrs ''src'' @ js '')''
             else [])
      else if tag = ''ul'' then Inr (js ''\<newline>'' @ childContent @ js ''\<newline>'')
      else if tag = ''ol'' then Inr (js ''\<newline>'' @ childContent @ js ''\<newline>'')
      else if tag = ''li'' then Inr (js ''- '' @ trim childContent @ js ''\<newline>'')
      else if tag = ''blockquote'' then
        bnd (replace_all eng fl_none (lit ''\<newline>'') (\<lambda>mt. js ''\<newline>> '') None (trim childContent))
          (\<lambda>quoted. Inr (js ''\<newline>> '' @ quoted @ js ''\<newline>''))
      else if tag = ''pre'' then convertPre eng (Element tag attrs kids) childContent
      else if tag = ''code'' then
        Inr (if parent = Some ''pre'' then childContent else js ''`'' @ childContent @ js ''`'')
      else if tag = ''hr'' then Inr (js ''\<newline>---\<newline>'')
      else if tag = ''table'' then Inr (convertTable (Element tag attrs kids))
      else Inr childContent)"

text \<open>
  \<open>convertNode\<close>, and \<open>convertNodes\<close> for
  \<open>Array.from(element.childNodes).map((child) => convertNode(child, opts)).join('')\<close>.
\<close>

fun convertNode :: "engine \<Rightarrow> opts \<Rightarrow> string option \<Rightarrow> node \<Rightarrow> error + jsstring"
  and convertNodes :: "engine \<Rightarrow> opts \<Rightarrow> string option \<Rightarrow> node list \<Rightarrow> error + jsstring" where
  "convertNode eng opts parent (Text t) = Inr t"
| "convertNode eng opts parent (Comment c) = Inr []"
| "convertNode eng opts parent (Element tag attrs kids) =
     (case map_of (customHandlers opts) tag of
        Some handler \<Rightarrow> Inr (handler (Element tag attrs kids))
      | None \<Rightarrow>
          if stripScripts opts \<and> (tag = ''script'' \<or> tag = ''style'') then Inr []
          else (case convertNodes eng opts (Some tag) kids of
                  Inl e \<Rightarrow> Inl e
                | Inr childContent \<Rightarrow> convertElement eng opts parent tag attrs kids childContent))"
| "convertNodes eng opts parent [] = Inr []"
| "convertNodes eng opts parent (k # ks) =
     (case convertNode eng opts parent k of
        Inl e \<Rightarrow> Inl e
      | Inr x \<Rightarrow> (case convertNodes eng opts parent ks of Inl e \<Rightarrow> Inl e | Inr xs \<Rightarrow> Inr (x @ xs)))"

text \<open>
  \<open>htmlToMarkdown\<close>: \<open>window\<close> is the environment, \<open>None\<close> where
  \<open>typeof window === 'undefined'\<close> and otherwise the platform's
  \<open>new DOMParser().parseFromString(html, 'text/html').body\<close>.
\<close>

definition htmlToMarkdown ::
  "(jsstring \<Rightarrow> node) option \<Rightarrow> engine \<Rightarrow> jsstring \<Rightarrow> options \<Rightarrow> error + jsstring" where
  "htmlToMarkdown window eng html options =
     (case window of
        None \<Rightarrow> serverSideConvert eng html (spread defaultOptions options)
      | Some parseFromString \<Rightarrow>
          convertNode eng (spread defaultOptions options) None (parseFromString html))"

section \<open>Text metrics (utils/html-to-markdown.ts)\<close>

text \<open>
  \<open>countWords\<close>: \<open>text.replace(/[^\w\s]/g, '').split(/\s+/).filter((word) => word.length > 0).length\<close>.
\<close>

definition countWords :: "engine \<Rightarrow> jsstring \<Rightarrow> error + nat" where
  "countWords eng txt =
     bnd (replace_all eng fl_none (Cls True [CWord, CSpace]) (\<lambda>mt. []) None txt)
       (\<lambda>stripped.
          bnd (split_rx eng fl_none (plus (Cls False [CSpace])) stripped)
            (\<lambda>pieces. Inr (length (filter (\<lambda>word. length word > 0) pieces))))"

text \<open>
  A JavaScript number that is an integer, \<open>Infinity\<close> or \<open>NaN\<close>. \<open>Math.ceil(a / b)\<close> on
  non-negative integers: the quotient of two integers of this size and its ceiling are exact
  in double arithmetic.
\<close>

datatype jsnumber = Num int | Infinity | NaN

definition ceil_div :: "nat \<Rightarrow> nat \<Rightarrow> jsnumber" where
  "ceil_div a b =
     (if b = 0 then (if a = 0 then NaN else Infinity) else Num \<lceil>real a / real b\<rceil>)"

definition calculateReadingTime :: "engine \<Rightarrow> jsstring \<Rightarrow> nat option \<Rightarrow> error + jsnumber" where
  \<comment> \<open>the last argument is \<open>wordsPerMinute\<close>, 200 when it is not given\<close>
  "calculateReadingTime eng txt wordsPerMinute =
     bnd (countWords eng txt)
       (\<lambda>words. Inr (ceil_div words (case wordsPerMinute of None \<Rightarrow> 200 | Some w \<Rightarrow> w)))"

section \<open>Headings of an HTML text (utils/html-to-markdown.ts)\<close>

record html_heading =
  h_id :: jsstring
  h_text :: jsstring
  h_level :: "nat option"   \<comment> \<open>\<open>None\<close> is \<open>NaN\<close>\<close>

text \<open>What a function of the source does: it returns, raises, or never returns.\<close>

datatype 'a outcome = Returns 'a | Raises error | Diverges

text \<open>
  The pattern is built at run time: the level names, joined by \<open>|\<close>, are pasted into the
  source text of the pattern, which \<open>new RegExp(source, 'gi')\<close> then parses.
  \<open>headings_source\<close> is that source text. The constructor belongs to the platform and is a
  parameter \<open>compile\<close> of the extractor: it yields a pattern or raises a \<open>SyntaxError\<close>.
  \<open>headings_rx\<close> is the pattern that the source text stands for when every level name is
  read as a literal, as the names \<open>h1\<close> to \<open>h6\<close> are.
\<close>

definition headings_source :: "string list \<Rightarrow> jsstring" where
  \<comment> \<open>the template literal, with \<open>"\<close> = 34, \<open>'\<close> = 39 and the backslash = 92\<close>
  "headings_source levels =
     js ''<('' @ join (js ''|'') (map js levels) @ js '')[^>]*(?:id=['' @ [34, 39] @ js '']([^'' @
     [34, 39] @ js '']*)['' @ [34, 39] @ js ''])?[^>]*>(.*?)<'' @ [92] @ js ''/'' @ [92] @ js ''1>''"

definition headings_rx :: "string list \<Rightarrow> rx" where
  "headings_rx levels =
     seq [lit ''<'', Grp 1 (alts (map lit levels)), star (not_chr CHR ''>''),
          opt (seq [lit ''id='', quot, Grp 2 (star not_quot), quot]),
          star (not_chr CHR ''>''), lit ''>'', Grp 3 (lazy_star Dot), lit ''</'', Ref 1, lit ''>'']"

definition parseInt_charAt1 :: "jsstring \<Rightarrow> nat option" where
  \<comment> \<open>\<open>parseInt(s.charAt(1), 10)\<close>\<close>
  "parseInt_charAt1 s =
     (case s of u # v # _ \<Rightarrow> if is_digit v then Some (v - 48) else None | _ \<Rightarrow> None)"

definition heading_of :: "engine \<Rightarrow> rmatch \<Rightarrow> nat \<Rightarrow> error + html_heading" where
  \<comment> \<open>the body of the \<open>while\<close> loop up to \<open>headings.push\<close>\<close>
  "heading_of eng mt index =
     (case grp mt 1 of
        None \<Rightarrow> Inl TypeError
      | Some g1 \<Rightarrow>
          (case grp mt 3 of
             None \<Rightarrow> Inl TypeError
           | Some g3 \<Rightarrow>
               bnd (replace_all eng fl_none any_tag_rx (\<lambda>mt. []) None g3)
                 (\<lambda>stripped.
                    Inr \<lparr>h_id = (case grp mt 2 of
                                   None \<Rightarrow> js ''heading-'' @ show_nat index
                                 | Some v \<Rightarrow> if v = [] then js ''heading-'' @ show_nat index else v),
                         h_text = trim stripped,
                         h_level = parseInt_charAt1 g1\<rparr>)))"

text \<open>
  The loop \<open>while ((match = regex.exec(html)) !== null)\<close>: \<open>exec\<close> resumes at
  \<open>lastIndex\<close>, the end of the previous match; an empty match would leave \<open>lastIndex\<close> where
  it is and the loop would never end.
\<close>

function extract_loop ::
  "engine \<Rightarrow> rx \<Rightarrow> nat option \<Rightarrow> jsstring \<Rightarrow> nat \<Rightarrow> html_heading list outcome" where
  "extract_loop eng r prev str index =
     (case rx_exec eng fl_i r prev str of
        Inl e \<Rightarrow> Raises e
      | Inr None \<Rightarrow> Returns []
      | Inr (Some mt) \<Rightarrow>
          (case heading_of eng mt index of
             Inl e \<Rightarrow> Raises e
           | Inr h \<Rightarrow>
               if matched mt = [] then Diverges
               else (case extract_loop eng r (after_prev mt) (after mt) (index + 1) of
                       Returns hs \<Rightarrow> Returns (h # hs)
                     | Raises e \<Rightarrow> Raises e
                     | Diverges \<Rightarrow> Diverges)))"
  by pat_completeness auto
termination
proof (relation "measure (\<lambda>(eng, r, prev, str, index). length str)")
  show "wf (measure (\<lambda>(eng, r, prev, str, index). length str))" by simp
next
  fix eng :: engine and r :: rx and prev :: "nat option" and str index found mt h
  assume e: "rx_exec eng fl_i r prev str = Inr found" "found = Some mt" and ne: "matched mt \<noteq> []"
  have c: "consumed xs ys \<noteq> [] \<Longrightarrow> xs \<noteq> []" for xs ys
    by (subst (asm) consumed.simps) (auto split: if_splits)
  from e obtain x where x: "mt = mk_match str (fst x) (snd x)"
    by (auto simp: rx_exec_def split: sum.splits)
  have mt: "matched mt = consumed (drop (length (fst x)) str) (rest (snd x))"
           "after mt = drop (length (fst x) + length (matched mt)) str"
    by (simp_all add: x mk_match_def)
  from ne mt(1) have "drop (length (fst x)) str \<noteq> []" by (auto dest: c)
  then have "str \<noteq> []" by auto
  moreover from ne have "0 < length (matched mt)" by simp
  ultimately have "length (after mt) < length str" unfolding mt(2) by simp
  then show "((eng, r, after_prev mt, after mt, index + 1), (eng, r, prev, str, index))
      \<in> measure (\<lambda>(eng, r, prev, str, index). length str)"
    by simp
qed

declare extract_loop.simps [simp del]

definition levels_or_default :: "string list option \<Rightarrow> string list" where
  \<comment> \<open>the parameter \<open>levels\<close>, \<open>['h2', 'h3', 'h4']\<close> when it is not given\<close>
  "levels_or_default levels = (case levels of None \<Rightarrow> [''h2'', ''h3'', ''h4''] | Some ls \<Rightarrow> ls)"

definition extractHeadings ::
  "(jsstring \<Rightarrow> error + rx) \<Rightarrow> engine \<Rightarrow> jsstring \<Rightarrow> string list option \<Rightarrow> html_heading list outcome" where
  "extractHeadings compile eng html levels =
     (case compile (headings_source (levels_or_default levels)) of
        Inl e \<Rightarrow> Raises e
      | Inr regex \<Rightarrow> extract_loop eng regex None html 0)"

text \<open>
  The constructor restricted to the source text of one list of level names that it reads
  as literals; every other source text is refused.
\<close>

definition compile_levels :: "string list \<Rightarrow> jsstring \<Rightarrow> error + rx" where
  "compile_levels levels source =
     (if source = headings_source levels then Inr (headings_rx levels) else Inl SyntaxError)"

section \<open>Assembling the Markdown document (server/generate-markdown.ts)\<close>

text \<open>
  \<open>String.prototype.toLowerCase\<close> is a function of the platform. Its only use in the source is
  followed by the deletion of every code unit outside \<open>[a-z0-9\s-]\<close>; the table below has
  the code units whose lower-case form contains a unit of that class (\<open>A-Z\<close>, U+0130 and
  U+212A) and leaves the others as they are.
\<close>

definition lower_unit :: "nat \<Rightarrow> jsstring" where
  "lower_unit u =
     (if is_upper u then [u + 32] else if u = 304 then [105, 775] else if u = 8490 then [107] else [u])"

definition toLowerCase :: "jsstring \<Rightarrow> jsstring" where
  "toLowerCase s = concat (map lower_unit s)"

definition hyphen :: rx where "hyphen = lit ''-''"

definition slug_of :: "engine \<Rightarrow> jsstring \<Rightarrow> error + jsstring" where
  \<comment> \<open>the chain that both slug functions share: \<open>.toLowerCase()\<close>,
      \<open>.replace(/[^a-z0-9\s-]/g, '')\<close>, \<open>.replace(/\s+/g, '-')\<close>, \<open>.replace(/-+/g, '-')\<close>,
      \<open>.replace(/^-+|-+$/g, '')\<close>\<close>
  "slug_of eng txt =
     bnd (replace_all eng fl_none
            (Cls True [range CHR ''a'' CHR ''z'', range CHR ''0'' CHR ''9'', CSpace, CChr 45])
            (\<lambda>mt. []) None (toLowerCase txt))
       (\<lambda>kept.
          bnd (replace_all eng fl_none (plus (Cls False [CSpace])) (\<lambda>mt. js ''-'') None kept)
            (\<lambda>hyphenated.
               bnd (replace_all eng fl_none (plus hyphen) (\<lambda>mt. js ''-'') None hyphenated)
                 (replace_all eng fl_none (Alt (Seq Bol (plus hyphen)) (Seq (plus hyphen) Eol))
                    (\<lambda>mt. []) None)))"

definition generateSlug :: "engine \<Rightarrow> jsstring \<Rightarrow> nat \<Rightarrow> error + jsstring" where
  "generateSlug eng txt index =
     bnd (slug_of eng txt)
       (\<lambda>slug. Inr (if slug = [] then js ''heading-'' @ show_nat index else slug))"

record LLMContent =
  title :: jsstring
  content :: jsstring
  excerpt :: "jsstring option"
  url :: "jsstring option"
  date :: "jsstring option"
  modifiedDate :: "jsstring option"
  author :: "jsstring option"
  categories :: "jsstring list option"
  tags :: "jsstring list option"
  promptPrefix :: "jsstring option"
  image :: "jsstring option"
  readingTime :: "int option"

text \<open>
  The interface declares \<open>url: string\<close> without a question mark, and \<open>generateMarkdown\<close>
  reads it without a test. The field is an option here so that a record built without a
  url can be given to the function; a template literal prints the missing value as
  \<open>undefined\<close>. \<open>readingTime\<close> is an integer number of minutes.
\<close>

record TOCHeading =
  hid :: jsstring
  htext :: jsstring
  level :: int

record MarkdownOutput =
  markdown :: jsstring
  wordCount :: nat
  out_readingTime :: jsnumber
  headings :: "TOCHeading list"

definition truthy :: "jsstring option \<Rightarrow> bool" where
  \<comment> \<open>a string that is neither missing nor empty\<close>
  "truthy x = (case x of None \<Rightarrow> False | Some v \<Rightarrow> v \<noteq> [])"

definition has_length :: "jsstring list option \<Rightarrow> bool" where
  \<comment> \<open>\<open>xs?.length\<close>\<close>
  "has_length xs = (case xs of None \<Rightarrow> False | Some l \<Rightarrow> l \<noteq> [])"

definition embed :: "jsstring option \<Rightarrow> jsstring" where
  \<comment> \<open>\<open>${x}\<close> in a template literal\<close>
  "embed x = (case x of None \<Rightarrow> js ''undefined'' | Some v \<Rightarrow> v)"

definition join_list :: "jsstring list option \<Rightarrow> jsstring" where
  \<comment> \<open>\<open>xs.join(', ')\<close>, behind the test of \<open>xs?.length\<close>\<close>
  "join_list xs = (case xs of None \<Rightarrow> [] | Some l \<Rightarrow> join (js '', '') l)"

definition push :: "jsstring \<Rightarrow> jsstring list \<Rightarrow> jsstring list" where
  "push x parts = parts @ [x]"

definition push_if :: "bool \<Rightarrow> jsstring \<Rightarrow> jsstring list \<Rightarrow> jsstring list" where
  \<comment> \<open>\<open>if (b) { parts.push(x) }\<close>\<close>
  "push_if b x parts = (if b then parts @ [x] else parts)"

definition statements :: "('a \<Rightarrow> 'a) list \<Rightarrow> 'a \<Rightarrow> 'a" where
  \<comment> \<open>statements run in order\<close>
  "statements fs x = foldl (\<lambda>acc f. f acc) x fs"

definition isHTML :: "engine \<Rightarrow> jsstring \<Rightarrow> error + bool" where
  \<comment> \<open>\<open>/<[a-z][\s\S]*>/i.test(str)\<close>\<close>
  "isHTML eng str =
     rx_test eng fl_i
       (seq [lit ''<'', Cls False [range CHR ''a'' CHR ''z''], star (Cls False [CSpace, CNotSpace]),
             lit ''>''])
       str"

text \<open>The statements of \<open>generateMarkdown\<close> before the metadata section.\<close>

definition head_section :: "LLMContent \<Rightarrow> jsstring list \<Rightarrow> jsstring list" where
  "head_section c =
     statements
      [push_if (truthy (map_option trim (promptPrefix c))) (trim (embed (promptPrefix c))),
       push_if (truthy (map_option trim (promptPrefix c))) [],
       push (js ''# '' @ title c),
       push [],
       push_if (truthy (excerpt c)) (js ''> '' @ embed (excerpt c)),
       push_if (truthy (excerpt c)) []]"

text \<open>The metadata section: the statements from the first \<open>parts.push('---')\<close> to the second.\<close>

definition metadata_section :: "LLMContent \<Rightarrow> jsstring list \<Rightarrow> jsstring list" where
  "metadata_section c =
     statements
      [push (js ''---''),
       push (js ''- **Source**: '' @ embed (url c)),
       push_if (truthy (date c)) (js ''- **Date**: '' @ embed (date c)),
       push_if (truthy (modifiedDate c)) (js ''- **Modified**: '' @ embed (modifiedDate c)),
       push_if (truthy (author c)) (js ''- **Author**: '' @ embed (author c)),
       push_if (has_length (categories c)) (js ''- **Categories**: '' @ join_list (categories c)),
       push_if (has_length (tags c)) (js ''- **Tags**: '' @ join_list (tags c)),
       push_if (readingTime c \<noteq> None \<and> readingTime c \<noteq> Some 0)
         (js ''- **Reading Time**: '' @ (case readingTime c of None \<Rightarrow> [] | Some n \<Rightarrow> show_int n) @ js '' min''),
       push (js ''---''),
       push []]"

definition body_section ::
  "(jsstring \<Rightarrow> node) option \<Rightarrow> engine \<Rightarrow> LLMContent \<Rightarrow> jsstring list \<Rightarrow> error + jsstring list" where
  \<comment> \<open>Main content (convert HTML to markdown if needed)\<close>
  "body_section window eng c parts =
     (if content c = [] then Inr parts
      else bnd (isHTML eng (content c))
             (\<lambda>html. if html
                      then bnd (htmlToMarkdown window eng (content c) no_options)
                             (\<lambda>contentMarkdown. Inr (parts @ [contentMarkdown]))
                      else Inr (parts @ [content c])))"

definition assemble :: "(jsstring \<Rightarrow> node) option \<Rightarrow> engine \<Rightarrow> LLMContent \<Rightarrow> error + jsstring" where
  \<comment> \<open>\<open>generateMarkdown\<close> up to \<open>const markdown = parts.join('\n').trim()\<close>\<close>
  "assemble window eng c =
     bnd (body_section window eng c (metadata_section c (head_section c [])))
       (\<lambda>parts. Inr (trim (join (js ''\<newline>'') parts)))"

definition heading_line_rx :: rx where
  \<comment> \<open>\<open>/^(#{1,6})\s+(.+)$/\<close>\<close>
  "heading_line_rx =
     seq [Bol, Grp 1 (Rep 1 (Some 6) True (lit ''#'')), plus (Cls False [CSpace]), Grp 2 (plus Dot), Eol]"

text \<open>
  The loop of \<open>extractMarkdownHeadings\<close> over the lines, with the running \<open>index\<close>.
  \<open>match[1].length\<close> and \<open>match[2].trim()\<close> raise on an undefined capture.
\<close>

fun markdown_headings :: "engine \<Rightarrow> jsstring list \<Rightarrow> nat \<Rightarrow> error + TOCHeading list" where
  "markdown_headings eng [] index = Inr []"
| "markdown_headings eng (line # lines) index =
     (case rx_exec eng fl_none heading_line_rx None line of
        Inl e \<Rightarrow> Inl e
      | Inr None \<Rightarrow> markdown_headings eng lines index
      | Inr (Some mt) \<Rightarrow>
          (case grp mt 1 of
             None \<Rightarrow> Inl TypeError
           | Some g1 \<Rightarrow>
               (case grp mt 2 of
                  None \<Rightarrow> Inl TypeError
                | Some g2 \<Rightarrow>
                    (case generateSlug eng (trim g2) index of
                       Inl e \<Rightarrow> Inl e
                     | Inr slug \<Rightarrow>
                         (case markdown_headings eng lines (index + 1) of
                            Inl e \<Rightarrow> Inl e
                          | Inr hs \<Rightarrow>
                              Inr (\<lparr>hid = slug, htext = trim g2, level = int (length g1)\<rparr> # hs))))))"

definition extractMarkdownHeadings :: "engine \<Rightarrow> jsstring \<Rightarrow> error + TOCHeading list" where
  "extractMarkdownHeadings eng md = markdown_headings eng (split_unit 10 md) 0"

definition generateMarkdown ::
  "(jsstring \<Rightarrow> node) option \<Rightarrow> engine \<Rightarrow> LLMContent \<Rightarrow> error + MarkdownOutput" where
  "generateMarkdown window eng c =
     bnd (assemble window eng c)
       (\<lambda>md. bnd (countWords eng md)
          (\<lambda>words. bnd (calculateReadingTime eng md None)
             (\<lambda>minutes. bnd (extractMarkdownHeadings eng md)
                (\<lambda>hs. Inr \<lparr>markdown = md, wordCount = words, out_readingTime = minutes,
                            headings = hs\<rparr>))))"

definition generateMarkdownString ::
  "(jsstring \<Rightarrow> node) option \<Rightarrow> engine \<Rightarrow> LLMContent \<Rightarrow> error + jsstring" where
  "generateMarkdownString window eng c = map_sum id markdown (generateMarkdown window eng c)"

section \<open>Heading ids of the TOC hook (hooks/use-toc.ts)\<close>

definition generateHeadingId :: "engine \<Rightarrow> jsstring \<Rightarrow> nat \<Rightarrow> error + jsstring" where
  \<comment> \<open>the chain of \<open>generateSlug\<close>, then \<open>.substring(0, 50)\<close>\<close>
  "generateHeadingId eng txt index =
     bnd (slug_of eng txt)
       (\<lambda>slug. Inr (if take 50 slug = [] then js ''heading-'' @ show_nat index else take 50 slug))"

section \<open>Table of contents: the nested tree (hooks/use-toc.ts)\<close>

text \<open>
  The flat input of \<open>buildNestedTOC\<close> is read through the fields id, text and level
  of \<open>TOCHeading\<close> only: the spread \<open>{ ...heading, children: [] }\<close> overwrites any
  children. The result is the nested form.
\<close>

datatype toc = TocNode (node_heading: TOCHeading) (node_children: "toc list")

text \<open>
  \<open>buildNestedTOC\<close> pushes the same object \<open>item\<close> into \<open>result\<close> (or into its
  parent's \<open>children\<close>) and onto \<open>stack\<close>, and later mutates it through the stack. The
  model keeps the objects in a store: the address of an item is its index in the store, and
  \<open>result\<close>, \<open>children\<close> and \<open>stack\<close> hold addresses.
\<close>

record item =
  heading :: TOCHeading
  children :: "nat list"

record frame =
  frame_heading :: nat
  frame_level :: int

record toc_state =
  store :: "item list"
  result :: "nat list"
  stack :: "frame list"

text \<open>The inner \<open>while\<close> loop: the top of the stack is the last element of the array.\<close>

function pop_stack :: "frame list \<Rightarrow> int \<Rightarrow> frame list" where
  "pop_stack stk lvl =
     (if stk \<noteq> [] \<and> frame_level (last stk) \<ge> lvl then pop_stack (butlast stk) lvl else stk)"
  by pat_completeness auto
termination
  by (relation "measure (\<lambda>(stk, lvl). length stk)") auto

declare pop_stack.simps [simp del]

definition push_child :: "nat \<Rightarrow> item \<Rightarrow> item" where
  "push_child a it = it\<lparr>children := children it @ [a]\<rparr>"

text \<open>One iteration of the \<open>for\<close> loop.\<close>

definition toc_step :: "toc_state \<Rightarrow> TOCHeading \<Rightarrow> toc_state" where
  "toc_step st h =
     (let a = length (store st);
          store1 = store st @ [\<lparr>heading = h, children = []\<rparr>];
          stack1 = pop_stack (stack st) (level h);
          st1 = (if stack1 = []
                 then st\<lparr>store := store1, result := result st @ [a]\<rparr>
                 else (let parent = frame_heading (last stack1)
                       in st\<lparr>store := store1[parent := push_child a (store1 ! parent)]\<rparr>))
      in st1\<lparr>stack := stack1 @ [\<lparr>frame_heading = a, frame_level = level h\<rparr>]\<rparr>)"

text \<open>
  Reading the returned array back as a tree. Children are allocated after their parent, so
  their addresses are larger; the guard on the addresses makes the recursion well-founded
  and drops nothing from a store built by \<open>toc_step\<close> (\<open>toc_store_ordered\<close> below).
\<close>

function tree_of :: "item list \<Rightarrow> nat \<Rightarrow> toc" where
  "tree_of st a =
     TocNode (heading (st ! a))
       (map (tree_of st) (filter (\<lambda>c. a < c \<and> c < length st) (children (st ! a))))"
  by pat_completeness auto
termination
  by (relation "measure (\<lambda>(st, a). length st - a)") auto

declare tree_of.simps [simp del]

definition buildNestedTOC :: "TOCHeading list \<Rightarrow> toc list" where
  "buildNestedTOC flat =
     (if length flat = 0 then []
      else (let st = foldl toc_step \<lparr>store = [], result = [], stack = []\<rparr> flat
            in map (tree_of (store st)) (result st)))"

text \<open>
  The store that \<open>buildNestedTOC\<close> builds lists, for every item, children allocated after
  it: \<open>tree_of\<close> reads all of them.
\<close>

definition children_ordered :: "item list \<Rightarrow> bool" where
  "children_ordered s \<longleftrightarrow> (\<forall>a < length s. \<forall>c \<in> set (children (s ! a)). a < c \<and> c < length s)"

definition toc_inv :: "toc_state \<Rightarrow> bool" where
  "toc_inv st \<longleftrightarrow>
     children_ordered (store st) \<and> (\<forall>f \<in> set (stack st). frame_heading f < length (store st))"

section \<open>The Markdown route handler (api/markdown-handler.ts)\<close>

text \<open>
  Values parsed from JSON, and the fields of a request body: \<open>None\<close> is \<open>undefined\<close>.
\<close>

datatype json = JNull | JBool bool | JNum rat | JStr jsstring | JArr "json list" | JObj "(jsstring \<times> json) list"

record AnalyticsEvent =
  action :: json
  contentId :: "json option"
  ev_url :: "json option"
  timestamp :: jsstring
  metadata :: "json option"

text \<open>
  A response: status, headers, and the body, which is a text, nothing, or the JSON object
  \<open>{ success: true, event }\<close> or \<open>{ success: false, error }\<close>.
\<close>

datatype body = BText jsstring | BNull | BSuccess AnalyticsEvent | BFailure jsstring

record response =
  status :: nat
  headers :: "(string \<times> jsstring) list"
  body :: body

text \<open>
  \<open>getContent\<close> is supplied by the caller: it returns a record or \<open>null\<close> (\<open>Inr None\<close>), or
  it throws or rejects (\<open>Inl\<close>).
\<close>

record MarkdownHandlerOptions =
  getContent :: "jsstring \<Rightarrow> error + LLMContent option"
  cacheControl :: "jsstring option"
  cors :: "bool option"

definition markdown_headers :: "MarkdownHandlerOptions \<Rightarrow> (string \<times> jsstring) list" where
  "markdown_headers options =
     [(''Content-Type'', js ''text/markdown; charset=utf-8''),
      (''Cache-Control'',
         if truthy (cacheControl options) then embed (cacheControl options) else js ''public, max-age=3600''),
      (''X-Robots-Tag'', js ''noindex'')] @
     (if cors options = Some True
      then [(''Access-Control-Allow-Origin'', js ''*''), (''Access-Control-Allow-Methods'', js ''GET'')]
      else [])"

definition error_response :: response where
  \<comment> \<open>the \<open>catch\<close> branch\<close>
  "error_response = \<lparr>status = 500, headers = [], body = BText (js ''Error generating markdown'')\<rparr>"

definition createMarkdownHandler ::
  "(jsstring \<Rightarrow> node) option \<Rightarrow> engine \<Rightarrow> MarkdownHandlerOptions \<Rightarrow> jsstring option \<Rightarrow> response" where
  \<comment> \<open>the last argument is \<open>params?.slug\<close>\<close>
  "createMarkdownHandler window eng options slug =
     (case getContent options (case slug of None \<Rightarrow> [] | Some sl \<Rightarrow> sl) of
        Inl e \<Rightarrow> error_response
      | Inr None \<Rightarrow>
          \<lparr>status = 404, headers = [(''Content-Type'', js ''text/plain'')],
           body = BText (js ''Content not found'')\<rparr>
      | Inr (Some c) \<Rightarrow>
          (case generateMarkdownString window eng c of
             Inl e \<Rightarrow> error_response
           | Inr md \<Rightarrow> \<lparr>status = 200, headers = markdown_headers options, body = BText md\<rparr>))"

section \<open>The analytics route handlers (api/analytics-handler.ts)\<close>

definition js_truthy :: "json option \<Rightarrow> bool" where
  "js_truthy v =
     (case v of
        None \<Rightarrow> False
      | Some JNull \<Rightarrow> False
      | Some (JBool b) \<Rightarrow> b
      | Some (JNum n) \<Rightarrow> n \<noteq> 0
      | Some (JStr t) \<Rightarrow> t \<noteq> []
      | Some _ \<Rightarrow> True)"

definition js_or :: "json option \<Rightarrow> json option \<Rightarrow> json option" where
  \<comment> \<open>\<open>a || b\<close>\<close>
  "js_or a b = (if js_truthy a then a else b)"

definition member :: "json \<Rightarrow> string \<Rightarrow> json option" where
  \<comment> \<open>\<open>body.name\<close> on a value that is not \<open>null\<close>, for the names the handlers read
      (\<open>action\<close>, \<open>contentId\<close>, \<open>url\<close>, \<open>metadata\<close>): only an object can have them\<close>
  "member v name = (case v of JObj kvs \<Rightarrow> map_of kvs (js name) | _ \<Rightarrow> None)"

definition opt_member :: "json option \<Rightarrow> string \<Rightarrow> json option" where
  \<comment> \<open>\<open>body?.name\<close>\<close>
  "opt_member v name = (case v of None \<Rightarrow> None | Some b \<Rightarrow> member b name)"

definition or_copy :: "json option \<Rightarrow> json" where
  \<comment> \<open>\<open>x || 'copy'\<close>\<close>
  "or_copy a = (case js_or a (Some (JStr (js ''copy''))) of None \<Rightarrow> JStr (js ''copy'') | Some v \<Rightarrow> v)"

record AnalyticsRequest =
  req_method :: jsstring
  forwarded_for :: "jsstring option"   \<comment> \<open>\<open>request.headers.get('x-forwarded-for')\<close>\<close>
  referer :: "jsstring option"         \<comment> \<open>\<open>request.headers.get('referer')\<close>\<close>
  req_body :: "json option"            \<comment> \<open>\<open>await request.json()\<close>; \<open>None\<close> when it rejects\<close>

text \<open>
  \<open>AnalyticsHandlerOptions\<close>; of the storage adapter the handlers call \<open>save\<close> only, which
  maps the state of the storage to its next state or rejects.
\<close>

record 'st AnalyticsHandlerOptions =
  save :: "AnalyticsEvent \<Rightarrow> 'st \<Rightarrow> error + 'st"
  rateLimit :: "int option"
  a_cors :: "bool option"

definition inMemory_save :: "AnalyticsEvent \<Rightarrow> AnalyticsEvent list \<Rightarrow> error + AnalyticsEvent list" where
  \<comment> \<open>\<open>save\<close> of \<open>createInMemoryStorage\<close>: \<open>events.push(event)\<close>\<close>
  "inMemory_save event events = Inr (events @ [event])"

record clientData =
  count :: int
  resetAt :: int

definition windowMs :: int where "windowMs = 60000"

definition clientIp :: "AnalyticsRequest \<Rightarrow> jsstring" where
  \<comment> \<open>\<open>request.headers.get('x-forwarded-for') || 'unknown'\<close>\<close>
  "clientIp request = (if truthy (forwarded_for request) then embed (forwarded_for request) else js ''unknown'')"

definition bump :: "(jsstring \<rightharpoonup> clientData) \<Rightarrow> jsstring \<Rightarrow> int \<Rightarrow> clientData" where
  \<comment> \<open>the entry of the client after \<open>clientData.count++\<close>\<close>
  "bump requestCounts ip now =
     (let clientData = (case requestCounts ip of
                          None \<Rightarrow> \<lparr>count = 0, resetAt = now + windowMs\<rparr>
                        | Some d \<Rightarrow> d);
          clientData = (if now > resetAt clientData
                        then \<lparr>count = 0, resetAt = now + windowMs\<rparr>
                        else clientData)
      in clientData\<lparr>count := count clientData + 1\<rparr>)"

definition rate_limited :: "clientData \<Rightarrow> int \<Rightarrow> response" where
  "rate_limited clientData now =
     \<lparr>status = 429,
      headers = [(''Retry-After'', show_int \<lceil>real_of_int (resetAt clientData - now) / 1000\<rceil>)],
      body = BText (js ''Rate limit exceeded'')\<rparr>"

definition failure :: response where
  \<comment> \<open>the \<open>catch\<close> branch of both handlers\<close>
  "failure = \<lparr>status = 500, headers = [], body = BFailure (js ''Failed to track event'')\<rparr>"

definition app_event :: "json \<Rightarrow> jsstring option \<Rightarrow> jsstring \<Rightarrow> error + AnalyticsEvent" where
  \<comment> \<open>the object literal of \<open>createAnalyticsHandler\<close>; \<open>body.action\<close> raises when the body is \<open>null\<close>\<close>
  "app_event b ref ts =
     (case b of
        JNull \<Rightarrow> Inl TypeError
      | _ \<Rightarrow>
          Inr \<lparr>action = or_copy (member b ''action''),
               contentId = member b ''contentId'',
               ev_url = js_or (member b ''url'') (Some (case ref of None \<Rightarrow> JNull | Some r \<Rightarrow> JStr r)),
               timestamp = ts,
               metadata = member b ''metadata''\<rparr>)"

definition track ::
  "'st AnalyticsHandlerOptions \<Rightarrow> 'st \<Rightarrow> AnalyticsRequest \<Rightarrow> jsstring \<Rightarrow> response \<times> 'st" where
  \<comment> \<open>the \<open>try\<close> block of \<open>createAnalyticsHandler\<close>\<close>
  "track options st request ts =
     (case req_body request of
        None \<Rightarrow> (failure, st)
      | Some b \<Rightarrow>
          (case app_event b (referer request) ts of
             Inl e \<Rightarrow> (failure, st)
           | Inr event \<Rightarrow>
               (case save options event st of
                  Inl e \<Rightarrow> (failure, st)
                | Inr st' \<Rightarrow>
                    (\<lparr>status = 200,
                      headers = (''Content-Type'', js ''application/json'') #
                                (if a_cors options = Some True
                                 then [(''Access-Control-Allow-Origin'', js ''*'')] else []),
                      body = BSuccess event\<rparr>, st'))))"

text \<open>
  The handler returned by \<open>createAnalyticsHandler\<close>. Its state is the map \<open>requestCounts\<close>
  of the closure and the state of the storage; \<open>now\<close> is \<open>Date.now()\<close> and \<open>ts\<close> is
  \<open>new Date().toISOString()\<close> at the request.
\<close>

definition createAnalyticsHandler ::
  "'st AnalyticsHandlerOptions \<Rightarrow> (jsstring \<rightharpoonup> clientData) \<times> 'st \<Rightarrow> AnalyticsRequest \<Rightarrow> int \<Rightarrow> jsstring
     \<Rightarrow> response \<times> (jsstring \<rightharpoonup> clientData) \<times> 'st" where
  "createAnalyticsHandler options state request now ts =
     (case state of (requestCounts, st) \<Rightarrow>
        if req_method request = js ''OPTIONS'' then
          (\<lparr>status = 204,
            headers = [(''Access-Control-Allow-Origin'', js ''*''),
                       (''Access-Control-Allow-Methods'', js ''POST, OPTIONS''),
                       (''Access-Control-Allow-Headers'', js ''Content-Type'')],
            body = BNull\<rparr>, requestCounts, st)
        else if req_method request \<noteq> js ''POST'' then
          (\<lparr>status = 405, headers = [], body = BText (js ''Method Not Allowed'')\<rparr>, requestCounts, st)
        else
          (case rateLimit options of
             Some limit \<Rightarrow>
               if limit = 0 then
                 (case track options st request ts of (resp, st') \<Rightarrow> (resp, requestCounts, st'))
               else if count (bump requestCounts (clientIp request) now) > limit then
                 (rate_limited (bump requestCounts (clientIp request) now) now,
                  requestCounts(clientIp request \<mapsto> bump requestCounts (clientIp request) now), st)
               else
                 (case track options st request ts of
                    (resp, st') \<Rightarrow>
                      (resp, requestCounts(clientIp request \<mapsto> bump requestCounts (clientIp request) now), st'))
           | None \<Rightarrow>
               (case track options st request ts of (resp, st') \<Rightarrow> (resp, requestCounts, st'))))"

text \<open>The handler returned by \<open>createAnalyticsPageHandler\<close> (Pages Router).\<close>

record PageRequest =
  p_method :: "jsstring option"
  p_body :: "json option"          \<comment> \<open>\<open>req.body\<close>\<close>
  p_referer :: "jsstring option"   \<comment> \<open>\<open>req.headers?.referer\<close>\<close>

definition page_event :: "json option \<Rightarrow> jsstring option \<Rightarrow> jsstring \<Rightarrow> AnalyticsEvent" where
  "page_event b ref ts =
     \<lparr>action = or_copy (opt_member b ''action''),
      contentId = opt_member b ''contentId'',
      ev_url = js_or (opt_member b ''url'') (map_option JStr ref),
      timestamp = ts,
      metadata = opt_member b ''metadata''\<rparr>"

definition createAnalyticsPageHandler ::
  "'st AnalyticsHandlerOptions \<Rightarrow> 'st \<Rightarrow> PageRequest \<Rightarrow> jsstring \<Rightarrow> response \<times> 'st" where
  "createAnalyticsPageHandler options st req ts =
     (if p_method req \<noteq> Some (js ''POST'') then
        (\<lparr>status = 405, headers = [], body = BText (js ''Method Not Allowed'')\<rparr>, st)
      else
        (case save options (page_event (p_body req) (p_referer req) ts) st of
           Inl e \<Rightarrow> (failure, st)
         | Inr st' \<Rightarrow>
             (\<lparr>status = 200,
               headers = (if a_cors options = Some True
                          then [(''Access-Control-Allow-Origin'', js ''*'')] else []),
               body = BSuccess (page_event (p_body req) (p_referer req) ts)\<rparr>, st')))"

text \<open>
  Requests served one after the other by the same handler: each sees the state its
  predecessor left. A request is given with the clock readings of its moment.
\<close>

fun serve_all ::
  "'st AnalyticsHandlerOptions \<Rightarrow> (jsstring \<rightharpoonup> clientData) \<times> 'st \<Rightarrow>
   (AnalyticsRequest \<times> int \<times> jsstring) list \<Rightarrow> response list" where
  "serve_all options state [] = []"
| "serve_all options state ((request, now, ts) # others) =
     (case createAnalyticsHandler options state request now ts of
        (resp, state') \<Rightarrow> resp # serve_all options state' others)"

text \<open>
  A valid POST request: the method is POST and the body parses to a JSON value on which
  \<open>body.action\<close> can be read (any value but \<open>null\<close>).
\<close>

definition valid_post :: "AnalyticsRequest \<Rightarrow> bool" where
  "valid_post request \<longleftrightarrow>
     req_method request = js ''POST'' \<and> (\<exists>b. req_body request = Some b \<and> b \<noteq> JNull)"

section \<open>Predicates on patterns and matcher states used in the proofs\<close>

text \<open>
  \<open>always_sets n r\<close>: every match of \<open>r\<close> goes through group \<open>n\<close>. \<open>consumes r\<close>: every match
  of \<open>r\<close> reads at least one code unit. \<open>extends s s'\<close>: \<open>s'\<close> is further in the input than
  \<open>s\<close> and has kept its captures.
\<close>

definition extends :: "mstate \<Rightarrow> mstate \<Rightarrow> bool" where
  "extends s s' \<longleftrightarrow> suffix (rest s') (rest s) \<and> fst ` set (caps s) \<subseteq> fst ` set (caps s')"

fun always_sets :: "nat \<Rightarrow> rx \<Rightarrow> bool" where
  "always_sets n (Grp j r) = (j = n \<or> always_sets n r)"
| "always_sets n (Seq a b) = (always_sets n a \<or> always_sets n b)"
| "always_sets n (Alt a b) = (always_sets n a \<and> always_sets n b)"
| "always_sets n (Rep mn mx g r) = (0 < mn \<and> mx \<noteq> Some 0 \<and> always_sets n r)"
| "always_sets n r = False"

fun consumes :: "rx \<Rightarrow> bool" where
  "consumes (Str cs) = (cs \<noteq> [])"
| "consumes (Cls neg items) = True"
| "consumes Dot = True"
| "consumes (Seq a b) = (consumes a \<or> consumes b)"
| "consumes (Alt a b) = (consumes a \<and> consumes b)"
| "consumes (Rep mn mx g r) = (0 < mn \<and> mx \<noteq> Some 0 \<and> consumes r)"
| "consumes (Grp j r) = consumes r"
| "consumes r = False"

definition reaches :: "nat \<Rightarrow> rx \<Rightarrow> mstate \<Rightarrow> mstate \<Rightarrow> bool" where
  "reaches n r s s' \<longleftrightarrow>
     extends s s' \<and> (always_sets n r \<longrightarrow> n \<in> fst ` set (caps s')) \<and>
     (consumes r \<longrightarrow> length (rest s') < length (rest s))"

text \<open>
  \<open>absent ic l str\<close>: the literal \<open>l\<close> occurs nowhere in \<open>str\<close> (letters compared without
  case when \<open>ic\<close> is set). \<open>blocked l r\<close>: every match of \<open>r\<close> reads the literal \<open>l\<close>.
  \<open>guarded l n r\<close>: wherever \<open>r\<close> sets group \<open>n\<close>, it has read the literal \<open>l\<close> before.
  \<open>keeps l n r s s'\<close>: \<open>s'\<close> is further in the input than \<open>s\<close> and, for a guarded pattern,
  has group \<open>n\<close> only if \<open>s\<close> had it.
\<close>

definition absent :: "bool \<Rightarrow> jsstring \<Rightarrow> jsstring \<Rightarrow> bool" where
  "absent ic l str \<longleftrightarrow>
     (\<forall>t \<in> set (suffixes str). \<not> (length l \<le> length t \<and> list_all2 (eq_unit ic) l (take (length l) t)))"

fun blocked :: "jsstring \<Rightarrow> rx \<Rightarrow> bool" where
  "blocked l (Str cs) = (cs = l)"
| "blocked l (Seq a b) = (blocked l a \<or> blocked l b)"
| "blocked l (Alt a b) = (blocked l a \<and> blocked l b)"
| "blocked l (Rep mn mx g r) = (0 < mn \<and> mx \<noteq> Some 0 \<and> blocked l r)"
| "blocked l (Grp j r) = blocked l r"
| "blocked l r = False"

fun guarded :: "jsstring \<Rightarrow> nat \<Rightarrow> rx \<Rightarrow> bool" where
  "guarded l n (Grp j r) = (j \<noteq> n \<and> guarded l n r)"
| "guarded l n (Seq a b) = (blocked l a \<or> (guarded l n a \<and> guarded l n b))"
| "guarded l n (Alt a b) = (guarded l n a \<and> guarded l n b)"
| "guarded l n (Rep mn mx g r) = guarded l n r"
| "guarded l n r = True"

definition keeps :: "jsstring \<Rightarrow> nat \<Rightarrow> rx \<Rightarrow> mstate \<Rightarrow> mstate \<Rightarrow> bool" where
  "keeps l n r s s' \<longleftrightarrow>
     suffix (rest s') (rest s) \<and>
     (guarded l n r \<longrightarrow> n \<in> fst ` set (caps s') \<longrightarrow> n \<in> fst ` set (caps s))"

text \<open>
  \<open>quiet eng\<close>: the engine exhausts its stack on no attempt. \<open>fine eng x\<close>: the computation
  \<open>x\<close> returns, or it raises the \<open>RangeError\<close> of an engine that is not quiet. \<open>limited n\<close> is
  an engine whose stack is exhausted by every attempt with more than \<open>n\<close> code units of input
  ahead.
\<close>

definition quiet :: "engine \<Rightarrow> bool" where
  "quiet eng \<longleftrightarrow> (\<forall>fl r prev inp. \<not> eng fl r prev inp)"

definition fine :: "engine \<Rightarrow> error + 'a \<Rightarrow> bool" where
  "fine eng x \<longleftrightarrow> (case x of Inl e \<Rightarrow> e = RangeError \<and> \<not> quiet eng | Inr v \<Rightarrow> True)"


section \<open>Properties of the nested table of contents\<close>

lemma pop_stack_Nil: "pop_stack [] l = []"
  by (simp add: pop_stack.simps)

lemma pop_stack_pop:
  "stk \<noteq> [] \<Longrightarrow> frame_level (last stk) \<ge> l \<Longrightarrow> pop_stack stk l = pop_stack (butlast stk) l"
  by (subst pop_stack.simps) simp

lemma pop_stack_keep:
  "stk \<noteq> [] \<Longrightarrow> \<not> frame_level (last stk) \<ge> l \<Longrightarrow> pop_stack stk l = stk"
  by (subst pop_stack.simps) simp

lemma set_pop_stack: "set (pop_stack stk l) \<subseteq> set stk"
proof (induction stk l rule: pop_stack.induct)
  case (1 stk lvl)
  show ?case
  proof (cases "stk \<noteq> [] \<and> frame_level (last stk) \<ge> lvl")
    case True
    then have "set (pop_stack (butlast stk) lvl) \<subseteq> set (butlast stk)" using 1 by simp
    moreover have "set (butlast stk) \<subseteq> set stk" by (auto dest: in_set_butlastD)
    moreover have "pop_stack stk lvl = pop_stack (butlast stk) lvl"
      using True by (subst pop_stack.simps) simp
    ultimately show ?thesis by auto
  next
    case False
    then show ?thesis by (subst pop_stack.simps) auto
  qed
qed

lemma children_orderedD:
  "children_ordered s \<Longrightarrow> a < length s \<Longrightarrow> c \<in> set (children (s ! a)) \<Longrightarrow> a < c \<and> c < length s"
  unfolding children_ordered_def by blast

lemma children_ordered_new:
  assumes "children_ordered s"
  shows "children_ordered (s @ [\<lparr>heading = h, children = []\<rparr>])"
  unfolding children_ordered_def
proof (intro allI impI ballI)
  fix a c assume a: "a < length (s @ [\<lparr>heading = h, children = []\<rparr>])"
    and c: "c \<in> set (children ((s @ [\<lparr>heading = h, children = []\<rparr>]) ! a))"
  show "a < c \<and> c < length (s @ [\<lparr>heading = h, children = []\<rparr>])"
  proof (cases "a < length s")
    case True
    with c have "c \<in> set (children (s ! a))" by (simp add: nth_append)
    from children_orderedD [OF assms True this] show ?thesis by simp
  next
    case False
    with a have "a = length s" by simp
    with c show ?thesis by simp
  qed
qed

lemma children_ordered_push:
  assumes "children_ordered s" and "p < n" and "Suc n = length s"
  shows "children_ordered (s[p := push_child n (s ! p)])"
  unfolding children_ordered_def
proof (intro allI impI ballI)
  fix a c assume a: "a < length (s[p := push_child n (s ! p)])"
    and c: "c \<in> set (children (s[p := push_child n (s ! p)] ! a))"
  have al: "a < length s" using a by simp
  show "a < c \<and> c < length (s[p := push_child n (s ! p)])"
  proof (cases "a = p")
    case True
    with c al have "c \<in> set (children (s ! p)) \<or> c = n" by (auto simp: push_child_def)
    then show ?thesis
    proof
      assume "c \<in> set (children (s ! p))"
      from children_orderedD [OF assms(1) _ this] al True show ?thesis by simp
    next
      assume "c = n"
      with assms(2,3) True show ?thesis by simp
    qed
  next
    case False
    with c al have "c \<in> set (children (s ! a))" by simp
    from children_orderedD [OF assms(1) al this] show ?thesis by simp
  qed
qed

lemma toc_step_store:
  "store (toc_step st h) =
     (let s1 = store st @ [\<lparr>heading = h, children = []\<rparr>]; k = pop_stack (stack st) (level h)
      in if k = [] then s1
         else s1[frame_heading (last k) := push_child (length (store st)) (s1 ! frame_heading (last k))])"
  by (simp add: toc_step_def Let_def)

lemma toc_step_stack:
  "stack (toc_step st h) =
     pop_stack (stack st) (level h) @ [\<lparr>frame_heading = length (store st), frame_level = level h\<rparr>]"
  by (simp add: toc_step_def Let_def)

lemma toc_step_inv:
  assumes "toc_inv st"
  shows "toc_inv (toc_step st h)"
proof -
  let ?s1 = "store st @ [\<lparr>heading = h, children = []\<rparr>]"
  let ?k = "pop_stack (stack st) (level h)"
  have co1: "children_ordered ?s1" using assms by (simp add: toc_inv_def children_ordered_new)
  have stk: "\<forall>f \<in> set ?k. frame_heading f < length (store st)"
    using assms set_pop_stack [of "stack st" "level h"] by (auto simp: toc_inv_def)
  have len: "length (store (toc_step st h)) = Suc (length (store st))"
    by (simp add: toc_step_store Let_def)
  have A: "children_ordered (store (toc_step st h))"
  proof (cases "?k = []")
    case True
    then show ?thesis using co1 by (simp add: toc_step_store Let_def)
  next
    case False
    then have "last ?k \<in> set ?k" by simp
    with stk have p: "frame_heading (last ?k) < length (store st)" by blast
    have "children_ordered (?s1[frame_heading (last ?k) := push_child (length (store st)) (?s1 ! frame_heading (last ?k))])"
      using co1 p by (intro children_ordered_push) simp_all
    then show ?thesis using False by (simp only: toc_step_store Let_def if_False)
  qed
  have B: "\<forall>f \<in> set (stack (toc_step st h)). frame_heading f < length (store (toc_step st h))"
    unfolding len toc_step_stack using stk by auto
  show ?thesis unfolding toc_inv_def using A B by blast
qed

lemma toc_foldl_inv: "toc_inv st \<Longrightarrow> toc_inv (foldl toc_step st hs)"
  by (induction hs arbitrary: st) (simp_all add: toc_step_inv)

lemma toc_store_ordered:
  assumes "st = foldl toc_step \<lparr>store = [], result = [], stack = []\<rparr> hs" and "a < length (store st)"
  shows "filter (\<lambda>c. a < c \<and> c < length (store st)) (children (store st ! a)) = children (store st ! a)"
proof -
  have "toc_inv \<lparr>store = [], result = [], stack = []\<rparr>" by (simp add: toc_inv_def children_ordered_def)
  then have "toc_inv st" unfolding assms(1) by (rule toc_foldl_inv)
  then have "children_ordered (store st)" by (simp add: toc_inv_def)
  from children_orderedD [OF this assms(2)] show ?thesis by (simp add: filter_id_conv)
qed

lemma map_eq_five:
  "map f xs = [a, b, c, d, e] \<Longrightarrow>
   \<exists>x1 x2 x3 x4 x5. xs = [x1, x2, x3, x4, x5] \<and> f x1 = a \<and> f x2 = b \<and> f x3 = c \<and> f x4 = d \<and> f x5 = e"
  by (auto simp: map_eq_Cons_conv)

lemma buildNestedTOC_five:
  assumes "level x1 = 2" "level x2 = 3" "level x3 = 3" "level x4 = 2" "level x5 = 4"
  shows "buildNestedTOC [x1, x2, x3, x4, x5] =
           [TocNode x1 [TocNode x2 [], TocNode x3 []], TocNode x4 [TocNode x5 []]]"
  by (simp add: buildNestedTOC_def toc_step_def Let_def pop_stack_Nil pop_stack_pop pop_stack_keep
        assms push_child_def tree_of.simps)

text \<open>
  Claim C4. For a flat heading list whose levels are 2, 3, 3, 2, 4 in that order,
  \<open>buildNestedTOC\<close> returns exactly two roots; the first root has exactly two children; the
  second root has exactly one child, and that child has no children. (The roots are the
  first and fourth heading, the children the other three, in their order.)
\<close>

theorem C4_levels_23324_shape:
  assumes "map level hs = [2, 3, 3, 2, 4]"
  shows "length (buildNestedTOC hs) = 2 \<and>
         length (node_children (buildNestedTOC hs ! 0)) = 2 \<and>
         length (node_children (buildNestedTOC hs ! 1)) = 1 \<and>
         node_children (node_children (buildNestedTOC hs ! 1) ! 0) = [] \<and>
         buildNestedTOC hs =
           [TocNode (hs ! 0) [TocNode (hs ! 1) [], TocNode (hs ! 2) []],
            TocNode (hs ! 3) [TocNode (hs ! 4) []]]"
proof -
  from assms obtain x1 x2 x3 x4 x5 where hs: "hs = [x1, x2, x3, x4, x5]" and
    l: "level x1 = 2" "level x2 = 3" "level x3 = 3" "level x4 = 2" "level x5 = 4"
    using map_eq_five by blast
  show ?thesis unfolding hs by (simp add: buildNestedTOC_five [OF l])
qed

theorem C4_levels_23324_shape_witness:
  "map level
     [\<lparr>hid = js ''a'', htext = js ''A'', level = 2\<rparr>, \<lparr>hid = js ''b'', htext = js ''B'', level = 3\<rparr>,
      \<lparr>hid = js ''c'', htext = js ''C'', level = 3\<rparr>, \<lparr>hid = js ''d'', htext = js ''D'', level = 2\<rparr>,
      \<lparr>hid = js ''e'', htext = js ''E'', level = 4\<rparr>] = [2, 3, 3, 2, 4] \<and>
   buildNestedTOC
     [\<lparr>hid = js ''a'', htext = js ''A'', level = 2\<rparr>, \<lparr>hid = js ''b'', htext = js ''B'', level = 3\<rparr>,
      \<lparr>hid = js ''c'', htext = js ''C'', level = 3\<rparr>, \<lparr>hid = js ''d'', htext = js ''D'', level = 2\<rparr>,
      \<lparr>hid = js ''e'', htext = js ''E'', level = 4\<rparr>] =
     [TocNode \<lparr>hid = js ''a'', htext = js ''A'', level = 2\<rparr>
        [TocNode \<lparr>hid = js ''b'', htext = js ''B'', level = 3\<rparr> [],
         TocNode \<lparr>hid = js ''c'', htext = js ''C'', level = 3\<rparr> []],
      TocNode \<lparr>hid = js ''d'', htext = js ''D'', level = 2\<rparr>
        [TocNode \<lparr>hid = js ''e'', htext = js ''E'', level = 4\<rparr> []]]"
  using C4_levels_23324_shape
    [of "[\<lparr>hid = js ''a'', htext = js ''A'', level = 2\<rparr>, \<lparr>hid = js ''b'', htext = js ''B'', level = 3\<rparr>,
          \<lparr>hid = js ''c'', htext = js ''C'', level = 3\<rparr>, \<lparr>hid = js ''d'', htext = js ''D'', level = 2\<rparr>,
          \<lparr>hid = js ''e'', htext = js ''E'', level = 4\<rparr>]"]
  by simp

section \<open>Properties of the analytics handlers\<close>

lemma ceiling_pos_div: "0 < (x::int) \<Longrightarrow> 0 < \<lceil>real_of_int x / 1000\<rceil>"
  by (simp add: ceiling_less_iff)

lemma POST_neq_OPTIONS: "js ''POST'' \<noteq> js ''OPTIONS''"
  by (simp add: js_def)

lemma or_copy_eq:
  "or_copy a = (if js_truthy a then the a else JStr (js ''copy''))"
  by (cases a) (auto simp: or_copy_def js_or_def js_truthy_def)

lemma app_event_action:
  "b \<noteq> JNull \<Longrightarrow> \<exists>ev. app_event b ref ts = Inr ev \<and> action ev = or_copy (member b ''action'')"
  by (cases b) (simp_all add: app_event_def)

lemma track_saves:
  assumes "req_body request = Some b" "b \<noteq> JNull" "\<forall>e s. \<exists>s'. save options e s = Inr s'"
  shows "\<exists>ev st'. save options ev st = Inr st' \<and>
          track options st request ts = (\<lparr>status = 200,
            headers = (''Content-Type'', js ''application/json'') #
                      (if a_cors options = Some True then [(''Access-Control-Allow-Origin'', js ''*'')] else []),
            body = BSuccess ev\<rparr>, st') \<and>
          action ev = or_copy (member b ''action'')"
proof -
  from assms(2) obtain ev where ev: "app_event b (referer request) ts = Inr ev"
    "action ev = or_copy (member b ''action'')"
    using app_event_action by blast
  from assms(3) obtain st' where s: "save options ev st = Inr st'" by blast
  have "track options st request ts = (\<lparr>status = 200,
            headers = (''Content-Type'', js ''application/json'') #
                      (if a_cors options = Some True then [(''Access-Control-Allow-Origin'', js ''*'')] else []),
            body = BSuccess ev\<rparr>, st')"
    unfolding track_def by (simp add: assms(1) ev(1) s)
  with s ev(2) show ?thesis by blast
qed

lemma track_status:
  assumes "req_body request = Some b" "b \<noteq> JNull" "\<forall>e s. \<exists>s'. save options e s = Inr s'"
  shows "status (fst (track options st request ts)) = 200"
  using track_saves [OF assms, of st ts] by auto

lemma bump_None: "rc ip = None \<Longrightarrow> bump rc ip now = \<lparr>count = 1, resetAt = now + windowMs\<rparr>"
  by (simp add: bump_def windowMs_def)

lemma bump_Some:
  "rc ip = Some d \<Longrightarrow> \<not> now > resetAt d \<Longrightarrow>
   bump rc ip now = \<lparr>count = count d + 1, resetAt = resetAt d\<rparr>"
  by (simp add: bump_def)

lemma handler_post_limited:
  assumes "req_method request = js ''POST''" "rateLimit options = Some limit" "limit \<noteq> 0"
  shows "createAnalyticsHandler options (rc, st) request now ts =
           (if count (bump rc (clientIp request) now) > limit
            then (rate_limited (bump rc (clientIp request) now) now,
                  rc(clientIp request \<mapsto> bump rc (clientIp request) now), st)
            else (fst (track options st request ts),
                  rc(clientIp request \<mapsto> bump rc (clientIp request) now),
                  snd (track options st request ts)))"
  using assms by (simp add: createAnalyticsHandler_def POST_neq_OPTIONS split: prod.splits)

lemma handler_post_passed:
  assumes "req_method request = js ''POST''"
    and "status (fst (createAnalyticsHandler options (rc, st) request now ts)) \<noteq> 429"
  shows "fst (createAnalyticsHandler options (rc, st) request now ts) = fst (track options st request ts) \<and>
         snd (snd (createAnalyticsHandler options (rc, st) request now ts)) = snd (track options st request ts)"
  using assms
  by (auto simp: createAnalyticsHandler_def POST_neq_OPTIONS rate_limited_def
           split: option.splits prod.splits if_splits)

lemma bump_opens:
  "\<forall>d. rc ip = Some d \<longrightarrow> resetAt d < now \<Longrightarrow> bump rc ip now = \<lparr>count = 1, resetAt = now + windowMs\<rparr>"
  by (cases "rc ip") (simp_all add: bump_def windowMs_def)

lemma rate_limit_three:
  fixes options :: "'st AnalyticsHandlerOptions"
  assumes rl: "rateLimit options = Some 2"
    and accepts: "\<forall>e s. \<exists>s'. save options e s = Inr s'"
    and v: "valid_post r1" "valid_post r2" "valid_post r3"
    and same: "clientIp r2 = clientIp r1" "clientIp r3 = clientIp r1"
    and opens: "\<forall>d. requestCounts (clientIp r1) = Some d \<longrightarrow> resetAt d < t1"
    and win: "t2 \<le> t1 + windowMs" "t3 \<le> t1 + windowMs"
  shows "serve_all options (requestCounts, st) [(r1, t1, ts1), (r2, t2, ts2), (r3, t3, ts3)] =
           [fst (track options st r1 ts1),
            fst (track options (snd (track options st r1 ts1)) r2 ts2),
            rate_limited \<lparr>count = 3, resetAt = t1 + windowMs\<rparr> t3] \<and>
         status (fst (track options st r1 ts1)) = 200 \<and>
         status (fst (track options (snd (track options st r1 ts1)) r2 ts2)) = 200"
proof -
  define ip where "ip = clientIp r1"
  have ips: "clientIp r1 = ip" "clientIp r2 = ip" "clientIp r3 = ip"
    using same by (simp_all add: ip_def)
  from v obtain b1 b2 where
    m: "req_method r1 = js ''POST''" "req_method r2 = js ''POST''" "req_method r3 = js ''POST''" and
    b: "req_body r1 = Some b1" "b1 \<noteq> JNull" "req_body r2 = Some b2" "b2 \<noteq> JNull"
    by (auto simp: valid_post_def)
  define d1 where "d1 = \<lparr>count = 1, resetAt = t1 + windowMs\<rparr>"
  define d2 where "d2 = \<lparr>count = 2, resetAt = t1 + windowMs\<rparr>"
  define d3 where "d3 = \<lparr>count = 3, resetAt = t1 + windowMs\<rparr>"
  define rc1 where "rc1 = requestCounts(ip \<mapsto> d1)"
  define rc2 where "rc2 = rc1(ip \<mapsto> d2)"
  define st1 where "st1 = snd (track options st r1 ts1)"
  define st2 where "st2 = snd (track options st1 r2 ts2)"
  have bump1: "bump requestCounts ip t1 = d1"
    using opens unfolding ips d1_def by (rule bump_opens)
  have r1: "createAnalyticsHandler options (requestCounts, st) r1 t1 ts1 =
      (fst (track options st r1 ts1), rc1, st1)"
    by (simp add: handler_post_limited [OF m(1) rl] ips bump1 d1_def rc1_def st1_def)
  have "rc1 ip = Some d1" by (simp add: rc1_def)
  moreover have "\<not> t2 > resetAt d1" using win(1) by (simp add: d1_def)
  ultimately have bump2: "bump rc1 ip t2 = d2"
    by (simp add: bump_Some d1_def d2_def)
  have r2: "createAnalyticsHandler options (rc1, st1) r2 t2 ts2 =
      (fst (track options st1 r2 ts2), rc2, st2)"
    by (simp add: handler_post_limited [OF m(2) rl] ips bump2 d2_def rc2_def st2_def)
  have "rc2 ip = Some d2" by (simp add: rc2_def)
  moreover have "\<not> t3 > resetAt d2" using win(2) by (simp add: d2_def)
  ultimately have bump3: "bump rc2 ip t3 = d3"
    by (simp add: bump_Some d2_def d3_def)
  have r3: "createAnalyticsHandler options (rc2, st2) r3 t3 ts3 =
      (rate_limited d3 t3, rc2(ip \<mapsto> d3), st2)"
    by (simp add: handler_post_limited [OF m(3) rl] ips bump3 d3_def)
  have "serve_all options (requestCounts, st) [(r1, t1, ts1), (r2, t2, ts2), (r3, t3, ts3)] =
      [fst (track options st r1 ts1), fst (track options st1 r2 ts2), rate_limited d3 t3]"
    by (simp add: r1 r2 r3)
  moreover have "status (fst (track options st r1 ts1)) = 200"
    by (rule track_status [OF b(1,2) accepts])
  moreover have "status (fst (track options st1 r2 ts2)) = 200"
    by (rule track_status [OF b(3,4) accepts])
  ultimately show ?thesis by (simp add: st1_def d3_def)
qed

lemma retry_after:
  "map_of (headers (rate_limited \<lparr>count = c, resetAt = t\<rparr> now)) ''Retry-After'' =
     Some (show_int \<lceil>real_of_int (t - now) / 1000\<rceil>)"
  by (simp add: rate_limited_def)

lemma ceiling_div_sign:
  "(x::int) \<le> y \<Longrightarrow> 0 \<le> \<lceil>real_of_int (y - x) / 1000\<rceil> \<and> (0 < \<lceil>real_of_int (y - x) / 1000\<rceil> \<longleftrightarrow> x < y)"
  by (simp add: ceiling_less_iff le_ceiling_iff)

text \<open>
  Claim C8, as the code has it. A handler is configured with \<open>rateLimit = 2\<close> and a storage
  that accepts every event. The first of three valid POST requests from one client key
  opens a window (the key has no entry, or an entry whose \<open>resetAt\<close> has passed); the second
  and the third arrive within that window, which the code takes to last up to and including
  the instant \<open>resetAt = t1 + 60000\<close> (its test is \<open>now > resetAt\<close>). The three requests
  receive the statuses 200, 200, 429 in that order. The third response carries a
  \<open>Retry-After\<close> header with the decimal rendering of \<open>ceil((resetAt - now) / 1000)\<close>: a
  number of seconds that is never negative, and strictly positive exactly when the third
  request arrives before \<open>resetAt\<close>.
\<close>

theorem C8_rate_limit_200_200_429:
  fixes options :: "'st AnalyticsHandlerOptions"
  assumes "rateLimit options = Some 2"
    and "\<forall>e s. \<exists>s'. save options e s = Inr s'"
    and "valid_post r1" "valid_post r2" "valid_post r3"
    and "clientIp r2 = clientIp r1" "clientIp r3 = clientIp r1"
    and "\<forall>d. requestCounts (clientIp r1) = Some d \<longrightarrow> resetAt d < t1"
    and "t2 \<le> t1 + windowMs" "t3 \<le> t1 + windowMs"
  shows "map status (serve_all options (requestCounts, st) [(r1, t1, ts1), (r2, t2, ts2), (r3, t3, ts3)]) =
           [200, 200, 429] \<and>
         (\<exists>n. map_of (headers (serve_all options (requestCounts, st)
                                 [(r1, t1, ts1), (r2, t2, ts2), (r3, t3, ts3)] ! 2)) ''Retry-After'' =
                Some (show_int n) \<and>
              n = \<lceil>real_of_int (t1 + 60000 - t3) / 1000\<rceil> \<and> 0 \<le> n \<and> (0 < n \<longleftrightarrow> t3 < t1 + 60000))"
proof -
  note three = rate_limit_three [where requestCounts = requestCounts and st = st and ?ts1.0 = ts1
      and ?ts2.0 = ts2 and ?ts3.0 = ts3, OF assms]
  have "t3 \<le> t1 + 60000" using assms(10) by (simp add: windowMs_def)
  from ceiling_div_sign [OF this] three show ?thesis
    by (simp add: retry_after windowMs_def rate_limited_def)
qed

theorem C8_rate_limit_200_200_429_witness:
  "rateLimit \<lparr>save = inMemory_save, rateLimit = Some 2, a_cors = None\<rparr> = Some 2 \<and>
   (\<forall>e s. \<exists>s'. save \<lparr>save = inMemory_save, rateLimit = Some 2, a_cors = None\<rparr> e s = Inr s') \<and>
   valid_post \<lparr>req_method = js ''POST'', forwarded_for = Some (js ''10.0.0.7''), referer = None,
               req_body = Some (JObj [(js ''action'', JStr (js ''view''))])\<rparr> \<and>
   (0::int) \<le> 0 + windowMs \<and> (59000::int) \<le> 0 + windowMs \<and>
   map status
     (serve_all \<lparr>save = inMemory_save, rateLimit = Some 2, a_cors = None\<rparr> (Map.empty, [])
        [(\<lparr>req_method = js ''POST'', forwarded_for = Some (js ''10.0.0.7''), referer = None,
            req_body = Some (JObj [(js ''action'', JStr (js ''view''))])\<rparr>, 0, js ''T0''),
         (\<lparr>req_method = js ''POST'', forwarded_for = Some (js ''10.0.0.7''), referer = None,
            req_body = Some (JObj [(js ''action'', JStr (js ''view''))])\<rparr>, 0, js ''T1''),
         (\<lparr>req_method = js ''POST'', forwarded_for = Some (js ''10.0.0.7''), referer = None,
            req_body = Some (JObj [(js ''action'', JStr (js ''view''))])\<rparr>, 59000, js ''T2'')]) =
     [200, 200, 429] \<and>
   map_of (headers
     (serve_all \<lparr>save = inMemory_save, rateLimit = Some 2, a_cors = None\<rparr> (Map.empty, [])
        [(\<lparr>req_method = js ''POST'', forwarded_for = Some (js ''10.0.0.7''), referer = None,
            req_body = Some (JObj [(js ''action'', JStr (js ''view''))])\<rparr>, 0, js ''T0''),
         (\<lparr>req_method = js ''POST'', forwarded_for = Some (js ''10.0.0.7''), referer = None,
            req_body = Some (JObj [(js ''action'', JStr (js ''view''))])\<rparr>, 0, js ''T1''),
         (\<lparr>req_method = js ''POST'', forwarded_for = Some (js ''10.0.0.7''), referer = None,
            req_body = Some (JObj [(js ''action'', JStr (js ''view''))])\<rparr>, 59000, js ''T2'')] ! 2))
     ''Retry-After'' = Some (show_int 1)"
proof -
  let ?o = "\<lparr>save = inMemory_save, rateLimit = Some 2, a_cors = None\<rparr>"
  let ?r = "\<lparr>req_method = js ''POST'', forwarded_for = Some (js ''10.0.0.7''), referer = None,
             req_body = Some (JObj [(js ''action'', JStr (js ''view''))])\<rparr>"
  have h1: "rateLimit ?o = Some 2" by simp
  have h2: "\<forall>e s. \<exists>s'. save ?o e s = Inr s'" by (simp add: inMemory_save_def)
  have h3: "valid_post ?r" by (simp add: valid_post_def)
  have h4: "\<forall>d. (Map.empty :: jsstring \<rightharpoonup> clientData) (clientIp ?r) = Some d \<longrightarrow> resetAt d < 0" by simp
  have h5: "(0::int) \<le> 0 + windowMs" "(59000::int) \<le> 0 + windowMs" by (simp_all add: windowMs_def)
  have c: "\<lceil>real_of_int (0 + 60000 - 59000) / 1000\<rceil> = 1" by simp
  from C8_rate_limit_200_200_429 [where requestCounts = Map.empty and st = "[]" and ?ts1.0 = "js ''T0''"
      and ?ts2.0 = "js ''T1''" and ?ts3.0 = "js ''T2''", OF h1 h2 h3 h3 h3 refl refl h4 h5]
  show ?thesis using h1 h2 h3 h5 unfolding c by blast
qed

text \<open>
  The claim as stated has the \<open>Retry-After\<close> of the third response strictly positive
  throughout the window. A third request at the instant \<open>resetAt\<close> itself (here 60000 ms after
  the first) is still counted in the window, is answered 429, and its \<open>Retry-After\<close> is \<open>0\<close>.
\<close>

theorem C8_retry_after_zero_counterexample:
  "map status
     (serve_all \<lparr>save = inMemory_save, rateLimit = Some 2, a_cors = None\<rparr> (Map.empty, [])
        [(\<lparr>req_method = js ''POST'', forwarded_for = Some (js ''10.0.0.7''), referer = None,
            req_body = Some (JObj [(js ''action'', JStr (js ''view''))])\<rparr>, 0, js ''T0''),
         (\<lparr>req_method = js ''POST'', forwarded_for = Some (js ''10.0.0.7''), referer = None,
            req_body = Some (JObj [(js ''action'', JStr (js ''view''))])\<rparr>, 30000, js ''T1''),
         (\<lparr>req_method = js ''POST'', forwarded_for = Some (js ''10.0.0.7''), referer = None,
            req_body = Some (JObj [(js ''action'', JStr (js ''view''))])\<rparr>, 60000, js ''T2'')]) =
     [200, 200, 429] \<and>
   map_of (headers
     (serve_all \<lparr>save = inMemory_save, rateLimit = Some 2, a_cors = None\<rparr> (Map.empty, [])
        [(\<lparr>req_method = js ''POST'', forwarded_for = Some (js ''10.0.0.7''), referer = None,
            req_body = Some (JObj [(js ''action'', JStr (js ''view''))])\<rparr>, 0, js ''T0''),
         (\<lparr>req_method = js ''POST'', forwarded_for = Some (js ''10.0.0.7''), referer = None,
            req_body = Some (JObj [(js ''action'', JStr (js ''view''))])\<rparr>, 30000, js ''T1''),
         (\<lparr>req_method = js ''POST'', forwarded_for = Some (js ''10.0.0.7''), referer = None,
            req_body = Some (JObj [(js ''action'', JStr (js ''view''))])\<rparr>, 60000, js ''T2'')] ! 2))
     ''Retry-After'' = Some (js ''0'')"
proof -
  let ?o = "\<lparr>save = inMemory_save, rateLimit = Some 2, a_cors = None\<rparr>"
  let ?r = "\<lparr>req_method = js ''POST'', forwarded_for = Some (js ''10.0.0.7''), referer = None,
             req_body = Some (JObj [(js ''action'', JStr (js ''view''))])\<rparr>"
  have h1: "rateLimit ?o = Some 2" by simp
  have h2: "\<forall>e s. \<exists>s'. save ?o e s = Inr s'" by (simp add: inMemory_save_def)
  have h3: "valid_post ?r" by (simp add: valid_post_def)
  have h4: "\<forall>d. (Map.empty :: jsstring \<rightharpoonup> clientData) (clientIp ?r) = Some d \<longrightarrow> resetAt d < 0" by simp
  have h5: "(30000::int) \<le> 0 + windowMs" "(60000::int) \<le> 0 + windowMs" by (simp_all add: windowMs_def)
  have z: "show_int 0 = js ''0''" by (simp add: show_int_def show_nat_def js_def)
  from rate_limit_three [where requestCounts = Map.empty and st = "[]" and ?ts1.0 = "js ''T0''"
      and ?ts2.0 = "js ''T1''" and ?ts3.0 = "js ''T2''", OF h1 h2 h3 h3 h3 refl refl h4 h5]
  show ?thesis by (simp add: retry_after rate_limited_def windowMs_def z)
qed

text \<open>
  Claim C10, as the code has it. The App Router handler: a POST request that passes the rate
  limit, whose body parses to a JSON value \<open>b\<close> other than \<open>null\<close>, with a storage that
  accepts every event, is answered 200 with \<open>{ success: true, event }\<close>; the event was
  handed to \<open>save\<close> and the storage is in the state \<open>save\<close> returned; the event's action is
  the body's action value whenever that value is truthy, whatever it is, and \<open>'copy'\<close>
  whenever it is missing or falsy. The Pages Router handler does the same for every body,
  \<open>null\<close> and \<open>undefined\<close> included, since it reads \<open>body?.action\<close>.
\<close>

theorem C10_action_defaults_to_copy:
  fixes options :: "'st AnalyticsHandlerOptions" and poptions :: "'pt AnalyticsHandlerOptions"
  shows
  "(req_method request = js ''POST'' \<and> req_body request = Some b \<and> b \<noteq> JNull \<and>
    (\<forall>e s. \<exists>s'. save options e s = Inr s') \<and>
    status (fst (createAnalyticsHandler options (rc, st) request now ts)) \<noteq> 429
    \<longrightarrow> (\<exists>ev. fst (createAnalyticsHandler options (rc, st) request now ts) =
                  \<lparr>status = 200,
                   headers = (''Content-Type'', js ''application/json'') #
                     (if a_cors options = Some True then [(''Access-Control-Allow-Origin'', js ''*'')] else []),
                   body = BSuccess ev\<rparr> \<and>
              save options ev st = Inr (snd (snd (createAnalyticsHandler options (rc, st) request now ts))) \<and>
              action ev = (if js_truthy (member b ''action'') then the (member b ''action'')
                           else JStr (js ''copy'')))) \<and>
   (p_method preq = Some (js ''POST'') \<and> (\<forall>e s. \<exists>s'. save poptions e s = Inr s')
    \<longrightarrow> (\<exists>ev. body (fst (createAnalyticsPageHandler poptions pst preq ts)) = BSuccess ev \<and>
              status (fst (createAnalyticsPageHandler poptions pst preq ts)) = 200 \<and>
              save poptions ev pst = Inr (snd (createAnalyticsPageHandler poptions pst preq ts)) \<and>
              action ev = (if js_truthy (opt_member (p_body preq) ''action'')
                           then the (opt_member (p_body preq) ''action'')
                           else JStr (js ''copy''))))"
proof (intro conjI impI)
  assume a: "req_method request = js ''POST'' \<and> req_body request = Some b \<and> b \<noteq> JNull \<and>
    (\<forall>e s. \<exists>s'. save options e s = Inr s') \<and>
    status (fst (createAnalyticsHandler options (rc, st) request now ts)) \<noteq> 429"
  then have m: "req_method request = js ''POST''" and bd: "req_body request = Some b" "b \<noteq> JNull"
    and acc: "\<forall>e s. \<exists>s'. save options e s = Inr s'"
    and nl: "status (fst (createAnalyticsHandler options (rc, st) request now ts)) \<noteq> 429"
    by blast+
  from handler_post_passed [OF m nl]
  have p: "fst (createAnalyticsHandler options (rc, st) request now ts) = fst (track options st request ts)"
      "snd (snd (createAnalyticsHandler options (rc, st) request now ts)) = snd (track options st request ts)"
    by blast+
  from track_saves [OF bd acc, of st ts] obtain ev st' where
    ev: "save options ev st = Inr st'"
        "track options st request ts = (\<lparr>status = 200,
            headers = (''Content-Type'', js ''application/json'') #
                      (if a_cors options = Some True then [(''Access-Control-Allow-Origin'', js ''*'')] else []),
            body = BSuccess ev\<rparr>, st')"
        "action ev = or_copy (member b ''action'')"
    by blast
  show "\<exists>ev. fst (createAnalyticsHandler options (rc, st) request now ts) =
                  \<lparr>status = 200,
                   headers = (''Content-Type'', js ''application/json'') #
                     (if a_cors options = Some True then [(''Access-Control-Allow-Origin'', js ''*'')] else []),
                   body = BSuccess ev\<rparr> \<and>
              save options ev st = Inr (snd (snd (createAnalyticsHandler options (rc, st) request now ts))) \<and>
              action ev = (if js_truthy (member b ''action'') then the (member b ''action'')
                           else JStr (js ''copy''))"
    unfolding p ev(2) using ev(1,3) by (intro exI [of _ ev]) (simp add: or_copy_eq)
next
  assume a: "p_method preq = Some (js ''POST'') \<and> (\<forall>e s. \<exists>s'. save poptions e s = Inr s')"
  let ?ev = "page_event (p_body preq) (p_referer preq) ts"
  from a obtain st' where s: "save poptions ?ev pst = Inr st'" by blast
  have "action ?ev = or_copy (opt_member (p_body preq) ''action'')" by (simp add: page_event_def)
  then show "\<exists>ev. body (fst (createAnalyticsPageHandler poptions pst preq ts)) = BSuccess ev \<and>
              status (fst (createAnalyticsPageHandler poptions pst preq ts)) = 200 \<and>
              save poptions ev pst = Inr (snd (createAnalyticsPageHandler poptions pst preq ts)) \<and>
              action ev = (if js_truthy (opt_member (p_body preq) ''action'')
                           then the (opt_member (p_body preq) ''action'')
                           else JStr (js ''copy''))"
    using a s by (intro exI [of _ ?ev]) (simp add: createAnalyticsPageHandler_def or_copy_eq)
qed

theorem C10_action_defaults_to_copy_witness:
  "req_method \<lparr>req_method = js ''POST'', forwarded_for = None, referer = None,
                req_body = Some (JObj [(js ''action'', JStr (js ''purge''))])\<rparr> = js ''POST'' \<and>
   JObj [(js ''action'', JStr (js ''purge''))] \<noteq> JNull \<and>
   (\<forall>e s. \<exists>s'. save \<lparr>save = inMemory_save, rateLimit = None, a_cors = None\<rparr> e s = Inr s') \<and>
   status (fst (createAnalyticsHandler \<lparr>save = inMemory_save, rateLimit = None, a_cors = None\<rparr> (Map.empty, [])
          \<lparr>req_method = js ''POST'', forwarded_for = None, referer = None,
            req_body = Some (JObj [(js ''action'', JStr (js ''purge''))])\<rparr> 0 (js ''T''))) \<noteq> 429 \<and>
   (\<exists>ev. body (fst (createAnalyticsHandler \<lparr>save = inMemory_save, rateLimit = None, a_cors = None\<rparr> (Map.empty, [])
          \<lparr>req_method = js ''POST'', forwarded_for = None, referer = None,
            req_body = Some (JObj [(js ''action'', JStr (js ''purge''))])\<rparr> 0 (js ''T''))) = BSuccess ev \<and>
         snd (snd (createAnalyticsHandler \<lparr>save = inMemory_save, rateLimit = None, a_cors = None\<rparr> (Map.empty, [])
          \<lparr>req_method = js ''POST'', forwarded_for = None, referer = None,
            req_body = Some (JObj [(js ''action'', JStr (js ''purge''))])\<rparr> 0 (js ''T''))) = [ev] \<and>
         action ev = JStr (js ''purge'')) \<and>
   p_method \<lparr>p_method = Some (js ''POST''), p_body = Some JNull, p_referer = None\<rparr> = Some (js ''POST'') \<and>
   (\<exists>ev. body (fst (createAnalyticsPageHandler \<lparr>save = inMemory_save, rateLimit = None, a_cors = None\<rparr> []
          \<lparr>p_method = Some (js ''POST''), p_body = Some JNull, p_referer = None\<rparr> (js ''T''))) = BSuccess ev \<and>
         snd (createAnalyticsPageHandler \<lparr>save = inMemory_save, rateLimit = None, a_cors = None\<rparr> []
          \<lparr>p_method = Some (js ''POST''), p_body = Some JNull, p_referer = None\<rparr> (js ''T'')) = [ev] \<and>
         action ev = JStr (js ''copy''))"
proof -
  let ?o = "\<lparr>save = inMemory_save, rateLimit = None, a_cors = None\<rparr>"
  let ?b = "JObj [(js ''action'', JStr (js ''purge''))]"
  let ?r = "\<lparr>req_method = js ''POST'', forwarded_for = None, referer = None, req_body = Some ?b\<rparr>"
  let ?p = "\<lparr>p_method = Some (js ''POST''), p_body = Some JNull, p_referer = None\<rparr>"
  have h1: "req_method ?r = js ''POST''" "req_body ?r = Some ?b" "?b \<noteq> JNull" by simp_all
  have h2: "\<forall>e s. \<exists>s'. save ?o e s = Inr s'" by (simp add: inMemory_save_def)
  have h3: "status (fst (createAnalyticsHandler ?o (Map.empty, []) ?r 0 (js ''T''))) \<noteq> 429"
    by (simp add: createAnalyticsHandler_def POST_neq_OPTIONS track_def app_event_def inMemory_save_def)
  have h4: "p_method ?p = Some (js ''POST'')" by simp
  have m: "member ?b ''action'' = Some (JStr (js ''purge''))" by (simp add: member_def)
  have t: "js_truthy (Some (JStr (js ''purge'')))" by (simp add: js_truthy_def js_def)
  have pm: "opt_member (p_body ?p) ''action'' = None" by (simp add: opt_member_def member_def)
  from C10_action_defaults_to_copy [of ?r ?b ?o Map.empty "[]" 0 "js ''T''" ?p ?o "[]"] h1 h2 h3 h4
  have A: "\<exists>ev. fst (createAnalyticsHandler ?o (Map.empty, []) ?r 0 (js ''T'')) =
                  \<lparr>status = 200,
                   headers = (''Content-Type'', js ''application/json'') #
                     (if a_cors ?o = Some True then [(''Access-Control-Allow-Origin'', js ''*'')] else []),
                   body = BSuccess ev\<rparr> \<and>
              save ?o ev [] = Inr (snd (snd (createAnalyticsHandler ?o (Map.empty, []) ?r 0 (js ''T'')))) \<and>
              action ev = (if js_truthy (member ?b ''action'') then the (member ?b ''action'')
                           else JStr (js ''copy''))"
    and B: "\<exists>ev. body (fst (createAnalyticsPageHandler ?o [] ?p (js ''T''))) = BSuccess ev \<and>
              status (fst (createAnalyticsPageHandler ?o [] ?p (js ''T''))) = 200 \<and>
              save ?o ev [] = Inr (snd (createAnalyticsPageHandler ?o [] ?p (js ''T''))) \<and>
              action ev = (if js_truthy (opt_member (p_body ?p) ''action'')
                           then the (opt_member (p_body ?p) ''action'')
                           else JStr (js ''copy''))"
    by blast+
  from A have A': "\<exists>ev. body (fst (createAnalyticsHandler ?o (Map.empty, []) ?r 0 (js ''T''))) = BSuccess ev \<and>
         snd (snd (createAnalyticsHandler ?o (Map.empty, []) ?r 0 (js ''T''))) = [ev] \<and>
         action ev = JStr (js ''purge'')"
    unfolding m by (auto simp: t inMemory_save_def)
  from B have B': "\<exists>ev. body (fst (createAnalyticsPageHandler ?o [] ?p (js ''T''))) = BSuccess ev \<and>
         snd (createAnalyticsPageHandler ?o [] ?p (js ''T'')) = [ev] \<and>
         action ev = JStr (js ''copy'')"
    unfolding pm by (auto simp: js_truthy_def inMemory_save_def)
  show ?thesis using h1 h2 h3 h4 A' B' by blast
qed

text \<open>
  The claim as stated covers every successfully parsed body. \<open>null\<close> is one: the App Router
  handler then raises at \<open>body.action\<close>, answers 500 and hands nothing to the storage.
\<close>

theorem C10_null_body_counterexample:
  "req_body \<lparr>req_method = js ''POST'', forwarded_for = None, referer = None, req_body = Some JNull\<rparr> = Some JNull \<and>
   fst (createAnalyticsHandler \<lparr>save = inMemory_save, rateLimit = None, a_cors = None\<rparr> (Map.empty, [])
          \<lparr>req_method = js ''POST'', forwarded_for = None, referer = None, req_body = Some JNull\<rparr>
          0 (js ''T'')) =
     \<lparr>status = 500, headers = [], body = BFailure (js ''Failed to track event'')\<rparr> \<and>
   snd (snd (createAnalyticsHandler \<lparr>save = inMemory_save, rateLimit = None, a_cors = None\<rparr> (Map.empty, [])
          \<lparr>req_method = js ''POST'', forwarded_for = None, referer = None, req_body = Some JNull\<rparr>
          0 (js ''T''))) = []"
  by (simp add: createAnalyticsHandler_def POST_neq_OPTIONS track_def app_event_def failure_def)

section \<open>Properties of the matcher\<close>

lemma extends_refl [simp]: "extends s s"
  by (simp add: extends_def)

lemma extends_trans: "extends a b \<Longrightarrow> extends b c \<Longrightarrow> extends a c"
  by (auto simp: extends_def intro: suffix_order.trans)

lemma strip_lit_suffix:
  "strip_lit ic cs inp p = Some (inp', p') \<Longrightarrow> \<exists>pre. inp = pre @ inp' \<and> length pre = length cs"
proof (induction ic cs inp p rule: strip_lit.induct)
  case (1 ic inp p)
  then show ?case by simp
next
  case (2 ic c cs p)
  then show ?case by simp
next
  case (3 ic c cs u us p)
  then have "eq_unit ic c u" and "strip_lit ic cs us (Some u) = Some (inp', p')"
    by (auto split: if_splits)
  with 3 obtain pre where "us = pre @ inp'" "length pre = length cs" by blast
  then have "u # us = (u # pre) @ inp' \<and> length (u # pre) = length (c # cs)" by simp
  then show ?case by blast
qed

lemma shorter_length: "shorter xs ys \<longleftrightarrow> length xs < length ys"
  by (induction xs ys rule: shorter.induct) auto

lemma extends_caps: "extends a b \<Longrightarrow> n \<in> fst ` set (caps a) \<Longrightarrow> n \<in> fst ` set (caps b)"
  by (auto simp: extends_def)

lemma reaches_plain: "\<not> always_sets n r \<Longrightarrow> \<not> consumes r \<Longrightarrow> reaches n r s s' = extends s s'"
  by (simp add: reaches_def)

lemma extends_length: "extends a b \<Longrightarrow> length (rest b) \<le> length (rest a)"
  by (auto simp: extends_def suffix_def)

lemma m_cont:
  "m fl r s k = Some res \<Longrightarrow> \<exists>s'. k s' = Some res \<and> reaches n r s s'"
proof (induction fl r s k arbitrary: res rule: m.induct)
  case (1 fl cs inp p c k)
  then obtain inp' p' where s: "strip_lit (icase fl) cs inp p = Some (inp', p')" and k: "k (MS inp' p' c) = Some res"
    by (auto split: option.splits)
  from strip_lit_suffix [OF s] have "reaches n (Str cs) (MS inp p c) (MS inp' p' c)"
    by (auto simp: reaches_def extends_def suffix_def)
  with k show ?case by blast
next
  case (2 fl neg items p c k)
  then show ?case by simp
next
  case (3 fl neg items u us p c k)
  then have "k (MS us (Some u) c) = Some res" by (auto split: if_splits)
  moreover have "reaches n (Cls neg items) (MS (u # us) p c) (MS us (Some u) c)"
    by (auto simp: reaches_def extends_def suffix_def)
  ultimately show ?case by blast
next
  case (4 fl p c k)
  then show ?case by simp
next
  case (5 fl u us p c k)
  then have "k (MS us (Some u) c) = Some res" by (auto split: if_splits)
  moreover have "reaches n Dot (MS (u # us) p c) (MS us (Some u) c)"
    by (auto simp: reaches_def extends_def suffix_def)
  ultimately show ?case by blast
next
  case (6 fl a b s k)
  from 6(3) have "m fl a s (\<lambda>s'. m fl b s' k) = Some res" by simp
  from 6(2) [OF this] obtain s1 where s1: "m fl b s1 k = Some res" "reaches n a s s1" by blast
  from 6(1) [OF s1(1)] obtain s2 where s2: "k s2 = Some res" "reaches n b s1 s2" by blast
  from s1(2) s2(2) have "reaches n (Seq a b) s s2"
    by (auto simp: reaches_def intro: extends_trans extends_caps dest: extends_length)
  with s2(1) show ?case by blast
next
  case (7 fl a b s k)
  show ?case
  proof (cases "m fl a s k")
    case None
    with 7(3) have "m fl b s k = Some res" by simp
    from 7(2) [OF None this] show ?thesis by (auto simp: reaches_def)
  next
    case (Some x)
    with 7(3) have "m fl a s k = Some res" by simp
    from 7(1) [OF this] show ?thesis by (auto simp: reaches_def)
  qed
next
  case (8 fl mn mx g r s k)
  let ?k' = "\<lambda>s'. m fl (Rep (mn - 1) (map_option (\<lambda>x. x - 1) mx) g r) s' k"
  let ?k0 = "\<lambda>s'. if shorter (rest s') (rest s) then m fl (Rep 0 (map_option (\<lambda>x. x - 1) mx) g r) s' k else None"
  show ?case
  proof (cases "mx = Some 0")
    case True
    with 8(7) have "k s = Some res" by auto
    moreover from True have "reaches n (Rep mn mx g r) s s" by (simp add: reaches_def)
    ultimately show ?thesis by blast
  next
    case nz: False
    show ?thesis
    proof (cases "0 < mn")
      case True
      with nz 8(7) have "m fl r s ?k' = Some res" by simp
      from 8(2) [OF nz True this] obtain s1 where s1: "?k' s1 = Some res" "reaches n r s s1" by blast
      from 8(1) [OF nz True s1(1)] obtain s2 where s2: "k s2 = Some res"
        "reaches n (Rep (mn - 1) (map_option (\<lambda>x. x - 1) mx) g r) s1 s2" by blast
      from s1(2) s2(2) have "reaches n (Rep mn mx g r) s s2"
        by (auto simp: reaches_def intro: extends_trans extends_caps dest: extends_length)
      with s2(1) show ?thesis by blast
    next
      case mn0: False
      then have na: "\<not> always_sets n (Rep mn mx g r)" "\<not> consumes (Rep mn mx g r)" by simp_all
      have iter: "m fl r s ?k0 = Some res \<Longrightarrow> \<exists>s'. k s' = Some res \<and> extends s s'" if gg: "g" for gg
      proof -
        assume a: "m fl r s ?k0 = Some res"
        from 8(4) [OF nz mn0 that a] obtain s1 where s1: "?k0 s1 = Some res" "extends s s1"
          by (auto simp: reaches_def)
        then have sh: "shorter (rest s1) (rest s)" and rec: "m fl (Rep 0 (map_option (\<lambda>x. x - 1) mx) g r) s1 k = Some res"
          by (auto split: if_splits)
        from 8(3) [OF nz mn0 that sh rec] obtain s2 where "k s2 = Some res" "extends s1 s2"
          by (auto simp: reaches_def)
        with s1(2) show ?thesis using extends_trans by blast
      qed
      have iterl: "m fl r s ?k0 = Some res \<Longrightarrow> k s = None \<Longrightarrow> \<exists>s'. k s' = Some res \<and> extends s s'" if gg: "\<not> g" for gg
      proof -
        assume a: "m fl r s ?k0 = Some res" and kn: "k s = None"
        from 8(6) [OF nz mn0 that kn a] obtain s1 where s1: "?k0 s1 = Some res" "extends s s1"
          by (auto simp: reaches_def)
        then have sh: "shorter (rest s1) (rest s)" and rec: "m fl (Rep 0 (map_option (\<lambda>x. x - 1) mx) g r) s1 k = Some res"
          by (auto split: if_splits)
        from 8(5) [OF nz mn0 that kn sh rec] obtain s2 where "k s2 = Some res" "extends s1 s2"
          by (auto simp: reaches_def)
        with s1(2) show ?thesis using extends_trans by blast
      qed
      have unf: "m fl (Rep mn mx g r) s k =
          (if g then (case m fl r s ?k0 of Some res \<Rightarrow> Some res | None \<Rightarrow> k s)
           else (case k s of Some res \<Rightarrow> Some res | None \<Rightarrow> m fl r s ?k0))"
        by (subst m.simps) (simp only: nz mn0 if_False)
      from 8(7) have e: "(if g then (case m fl r s ?k0 of Some res \<Rightarrow> Some res | None \<Rightarrow> k s)
           else (case k s of Some res \<Rightarrow> Some res | None \<Rightarrow> m fl r s ?k0)) = Some res"
        by (simp only: unf)
      have "\<exists>s'. k s' = Some res \<and> extends s s'"
      proof (cases g)
        case True
        with e have e1: "(case m fl r s ?k0 of Some res \<Rightarrow> Some res | None \<Rightarrow> k s) = Some res"
          by (simp only: if_True)
        show ?thesis
        proof (cases "m fl r s ?k0")
          case None
          with e1 have "k s = Some res" by (simp only: option.case)
          then show ?thesis by (intro exI [of _ s]) simp
        next
          case (Some x)
          with e1 have "m fl r s ?k0 = Some res" by (simp only: option.case)
          with iter [OF True] show ?thesis by blast
        qed
      next
        case False
        with e have e1: "(case k s of Some res \<Rightarrow> Some res | None \<Rightarrow> m fl r s ?k0) = Some res"
          by (simp only: if_False)
        show ?thesis
        proof (cases "k s")
          case None
          with e1 have "m fl r s ?k0 = Some res" by (simp only: option.case)
          with iterl [OF False] None show ?thesis by blast
        next
          case (Some x)
          with e1 have "k s = Some res" by (simp only: option.case)
          then show ?thesis by (intro exI [of _ s]) simp
        qed
      qed
      then show ?thesis by (simp only: reaches_plain [OF na])
    qed
  qed
next
  case (9 fl j r inp p c k)
  let ?k' = "\<lambda>s'. k (MS (rest s') (prevc s') ((j, consumed inp (rest s')) # caps s'))"
  from 9(2) have "m fl r (MS inp p c) ?k' = Some res" by simp
  from 9(1) [OF this] obtain s1 where s1: "?k' s1 = Some res" "reaches n r (MS inp p c) s1" by blast
  from s1(2) have "reaches n (Grp j r) (MS inp p c) (MS (rest s1) (prevc s1) ((j, consumed inp (rest s1)) # caps s1))"
    by (auto simp: reaches_def extends_def)
  with s1(1) show ?case by blast
next
  case (10 fl j inp p c k)
  show ?case
  proof (cases "map_of c j")
    case None
    with 10 have "k (MS inp p c) = Some res" by simp
    then show ?thesis by (intro exI [of _ "MS inp p c"]) (simp add: reaches_def)
  next
    case (Some t)
    with 10 obtain inp' p' where s: "strip_lit (icase fl) t inp p = Some (inp', p')" and k: "k (MS inp' p' c) = Some res"
      by (auto split: option.splits)
    from strip_lit_suffix [OF s] have "reaches n (Ref j) (MS inp p c) (MS inp' p' c)"
      by (auto simp: reaches_def extends_def suffix_def)
    with k show ?thesis by blast
  qed
next
  case (11 fl r s k)
  then have "k s = Some res" by (auto split: option.splits)
  then show ?case by (intro exI [of _ s]) (simp add: reaches_def)
next
  case (12 fl s k)
  then have "k s = Some res" by (auto split: if_splits)
  then show ?case by (intro exI [of _ s]) (simp add: reaches_def)
next
  case (13 fl s k)
  then have "k s = Some res" by (auto split: if_splits)
  then show ?case by (intro exI [of _ s]) (simp add: reaches_def)
next
  case (14 fl s k)
  then have "k s = Some res" by (auto split: if_splits)
  then show ?case by (intro exI [of _ s]) (simp add: reaches_def)
qed

lemma m_top:
  assumes "m fl r s Some = Some res"
  shows "suffix (rest res) (rest s)" and "always_sets n r \<Longrightarrow> n \<in> fst ` set (caps res)"
    and "consumes r \<Longrightarrow> length (rest res) < length (rest s)"
  using m_cont [OF assms, of n] by (auto simp: reaches_def extends_def)

lemma consumed_suffix: "suffix ys xs \<Longrightarrow> consumed xs ys = take (length xs - length ys) xs"
proof (induction xs)
  case Nil
  then show ?case by (simp add: consumed.simps)
next
  case (Cons u us)
  show ?case
  proof (cases "shorter ys (u # us)")
    case True
    then have l: "length ys < length (u # us)" by (simp add: shorter_length)
    with Cons.prems have "suffix ys us" by (auto simp: suffix_Cons)
    from Cons.IH [OF this] True l show ?thesis
      by (subst consumed.simps) (simp add: Suc_diff_le)
  next
    case False
    then have "\<not> length ys < length (u # us)" by (simp add: shorter_length)
    with False show ?thesis by (subst consumed.simps) simp
  qed
qed


lemma rx_search_at:
  "rx_search eng fl r prev str = Inr (Some (sk, s')) \<Longrightarrow>
   \<exists>prev'. m fl r (MS (drop (length sk) str) prev' []) Some = Some s' \<and> take (length sk) str = sk"
proof (induction str arbitrary: prev sk)
  case Nil
  then show ?case by (auto simp: attempt_def split: if_splits)
next
  case (Cons u us)
  from Cons.prems obtain found where a: "attempt eng fl r prev (u # us) = Inr found"
    by (auto split: sum.splits)
  then have f: "found = m fl r (MS (u # us) prev []) Some"
    by (auto simp: attempt_def split: if_splits)
  show ?case
  proof (cases found)
    case (Some x)
    with Cons.prems a have "sk = []" "s' = x" by simp_all
    with Some f show ?thesis by auto
  next
    case None
    with Cons.prems a obtain sk' where sk': "rx_search eng fl r (Some u) us = Inr (Some (sk', s'))" "sk = u # sk'"
      by (auto split: sum.splits)
    from Cons.IH [OF sk'(1)] sk'(2) show ?thesis by auto
  qed
qed

lemma rx_exec_facts:
  assumes "rx_exec eng fl r prev str = Inr (Some mt)"
  shows "str = before mt @ matched mt @ after mt"
    and "always_sets n r \<Longrightarrow> \<exists>v. grp mt n = Some v"
    and "consumes r \<Longrightarrow> matched mt \<noteq> []"
    and "\<exists>prev' inp res. suffix inp str \<and> m fl r (MS inp prev' []) Some = Some res \<and> groups mt = caps res"
proof -
  from assms obtain sk s' where rs: "rx_search eng fl r prev str = Inr (Some (sk, s'))" and mt: "mt = mk_match str sk s'"
    by (auto simp: rx_exec_def split: sum.splits)
  from rx_search_at [OF rs] obtain prev' where
    ms: "m fl r (MS (drop (length sk) str) prev' []) Some = Some s'" and sk: "take (length sk) str = sk"
    by blast
  let ?inp = "drop (length sk) str"
  from m_top(1) [OF ms] have suf: "suffix (rest s') ?inp" by simp
  then obtain pre where pre: "?inp = pre @ rest s'" by (auto simp: suffix_def)
  have c: "consumed ?inp (rest s') = pre"
    using consumed_suffix [OF suf] pre by (metis add_diff_cancel_right' append_eq_conv_conj length_append)
  have str: "str = sk @ pre @ rest s'"
    using sk pre by (metis append_take_drop_id)
  have m1: "before mt = sk" "matched mt = pre" by (simp_all add: mt mk_match_def c)
  have m3: "after mt = rest s'"
    unfolding mt mk_match_def c by (subst str) simp
  show "str = before mt @ matched mt @ after mt" using str m1 m3 by simp
  show "\<exists>v. grp mt n = Some v" if "always_sets n r"
  proof -
    from m_top(2) [OF ms that] have "n \<in> fst ` set (caps s')" .
    then have "map_of (caps s') n \<noteq> None" by (simp add: map_of_eq_None_iff)
    then show ?thesis by (auto simp: grp_def mt mk_match_def)
  qed
  show "matched mt \<noteq> []" if "consumes r"
  proof -
    from m_top(3) [OF ms that] have "length (rest s') < length ?inp" by simp
    with pre have "pre \<noteq> []" by auto
    with m1 show ?thesis by simp
  qed
  have "suffix ?inp str" by (rule suffix_drop)
  moreover have "groups mt = caps s'" by (simp add: mt mk_match_def)
  ultimately show "\<exists>prev' inp res. suffix inp str \<and> m fl r (MS inp prev' []) Some = Some res \<and> groups mt = caps res"
    using ms by blast
qed

lemma rx_exec_after:
  assumes "rx_exec eng fl r prev str = Inr (Some mt)"
  shows "suffix (after mt) str" and "matched mt \<noteq> [] \<Longrightarrow> length (after mt) < length str"
    and "length (after mt) \<le> length str"
proof -
  from rx_exec_facts(1) [OF assms] have str: "str = before mt @ matched mt @ after mt" .
  then show "suffix (after mt) str" by (metis append.assoc suffixI)
  from str have "length str = length (before mt) + length (matched mt) + length (after mt)"
    by (metis add.assoc length_append)
  then show "matched mt \<noteq> [] \<Longrightarrow> length (after mt) < length str" "length (after mt) \<le> length str"
    by auto
qed

subsection \<open>What the operations can raise\<close>

lemma fine_Inr [simp]: "fine eng (Inr v)"
  by (simp add: fine_def)

lemma fine_Inl [simp]: "fine eng (Inl e) \<longleftrightarrow> e = RangeError \<and> \<not> quiet eng"
  by (simp add: fine_def)



lemma fine_attempt: "fine eng (attempt eng fl r prev inp)"
  by (auto simp: attempt_def quiet_def)

lemma fine_rx_search: "fine eng (rx_search eng fl r prev str)"
proof (induction str arbitrary: prev)
  case Nil
  show ?case using fine_attempt [of eng fl r prev "[]"] by (auto split: sum.splits)
next
  case (Cons u us)
  show ?case
    using fine_attempt [of eng fl r prev "u # us"] Cons [of "Some u"]
    by (auto split: sum.splits option.splits)
qed

lemma fine_rx_exec: "fine eng (rx_exec eng fl r prev str)"
  using fine_rx_search [of eng fl r prev str] by (auto simp: rx_exec_def split: sum.splits)

lemma fine_rx_test: "fine eng (rx_test eng fl r str)"
  using fine_rx_search [of eng fl r None str] by (auto simp: rx_test_def split: sum.splits)

lemma fine_replace_all_fn:
  assumes f: "\<And>mt. (always_sets n r \<longrightarrow> (\<exists>v. grp mt n = Some v)) \<Longrightarrow> fine eng (f mt)"
  shows "fine eng (replace_all_fn eng fl r f prev str)"
proof (induction "length str" arbitrary: prev str rule: less_induct)
  case less
  show ?case
  proof (cases "rx_exec eng fl r prev str")
    case (Inl e)
    with fine_rx_exec [of eng fl r prev str] show ?thesis
      by (subst replace_all_fn.simps) simp
  next
    case (Inr found)
    show ?thesis
    proof (cases found)
      case None
      with Inr show ?thesis by (subst replace_all_fn.simps) simp
    next
      case (Some mt)
      with Inr have ex: "rx_exec eng fl r prev str = Inr (Some mt)" by simp
      from rx_exec_facts(2) [OF ex] have "fine eng (f mt)" by (intro f) blast
      show ?thesis
      proof (cases "f mt")
        case (Inl e)
        with \<open>fine eng (f mt)\<close> ex show ?thesis by (subst replace_all_fn.simps) simp
      next
        case rep: (Inr rep)
        show ?thesis
        proof (cases "matched mt = []")
          case True
          show ?thesis
          proof (cases "after mt")
            case Nil
            with ex rep True show ?thesis by (subst replace_all_fn.simps) simp
          next
            case (Cons u us)
            with rx_exec_after(3) [OF ex] have "length us < length str" by simp
            from less [OF this, of "Some u"] ex rep True Cons show ?thesis
              by (subst replace_all_fn.simps) (auto split: sum.splits)
          qed
        next
          case False
          from less [OF rx_exec_after(2) [OF ex False], of "after_prev mt"] ex rep False show ?thesis
            by (subst replace_all_fn.simps) (auto split: sum.splits)
        qed
      qed
    qed
  qed
qed

lemma fine_replace_all: "fine eng (replace_all eng fl r f prev str)"
  unfolding replace_all_def by (rule fine_replace_all_fn [where n = 0]) simp











subsection \<open>Captures behind a literal that the input does not contain\<close>

lemma strip_lit_Some_prefix:
  "strip_lit ic cs inp p = Some x \<Longrightarrow> length cs \<le> length inp \<and> list_all2 (eq_unit ic) cs (take (length cs) inp)"
proof (induction ic cs inp p rule: strip_lit.induct)
  case (1 ic inp p)
  then show ?case by simp
next
  case (2 ic c cs p)
  then show ?case by simp
next
  case (3 ic c cs u us p)
  then show ?case by (auto split: if_splits)
qed

lemma absentD:
  "absent ic l html \<Longrightarrow> suffix t html \<Longrightarrow> strip_lit ic l t p = None"
  by (cases "strip_lit ic l t p") (auto simp: absent_def in_set_suffixes dest: strip_lit_Some_prefix)

lemma keeps_refl [simp]: "keeps l n r s s"
  by (simp add: keeps_def)

lemma keeps_suffix: "keeps l n r s s' \<Longrightarrow> suffix (rest s) html \<Longrightarrow> suffix (rest s') html"
  by (auto simp: keeps_def intro: suffix_order.trans)

lemma m_guard:
  "absent (icase fl) l html \<Longrightarrow> m fl r s k = Some res \<Longrightarrow> suffix (rest s) html \<Longrightarrow>
   \<not> blocked l r \<and> (\<exists>s'. k s' = Some res \<and> keeps l n r s s')"
proof (induction fl r s k arbitrary: res rule: m.induct)
  case (1 fl cs inp p c k)
  from 1(2) obtain inp' p' where s: "strip_lit (icase fl) cs inp p = Some (inp', p')" and k: "k (MS inp' p' c) = Some res"
    by (auto split: option.splits)
  from absentD [OF 1(1), of inp p] 1(3) s have "cs \<noteq> l" by auto
  moreover from strip_lit_suffix [OF s] have "keeps l n (Str cs) (MS inp p c) (MS inp' p' c)"
    by (auto simp: keeps_def suffix_def)
  ultimately show ?case using k by auto
next
  case (2 fl neg items p c k)
  then show ?case by simp
next
  case (3 fl neg items u us p c k)
  then have "k (MS us (Some u) c) = Some res" by (auto split: if_splits)
  moreover have "keeps l n (Cls neg items) (MS (u # us) p c) (MS us (Some u) c)"
    by (auto simp: keeps_def suffix_def)
  ultimately show ?case by auto
next
  case (4 fl p c k)
  then show ?case by simp
next
  case (5 fl u us p c k)
  then have "k (MS us (Some u) c) = Some res" by (auto split: if_splits)
  moreover have "keeps l n Dot (MS (u # us) p c) (MS us (Some u) c)"
    by (auto simp: keeps_def suffix_def)
  ultimately show ?case by auto
next
  case (6 fl a b s k)
  from 6(4) have "m fl a s (\<lambda>s'. m fl b s' k) = Some res" by simp
  from 6(2) [OF 6(3) this 6(5)] obtain s1 where
    na: "\<not> blocked l a" and s1: "m fl b s1 k = Some res" "keeps l n a s s1" by blast
  from keeps_suffix [OF s1(2) 6(5)] have suf1: "suffix (rest s1) html" .
  from 6(1) [OF 6(3) s1(1) suf1] obtain s2 where
    nb: "\<not> blocked l b" and s2: "k s2 = Some res" "keeps l n b s1 s2" by blast
  from s1(2) s2(2) na have "keeps l n (Seq a b) s s2"
    by (auto simp: keeps_def intro: suffix_order.trans)
  with s2(1) na nb show ?case by auto
next
  case (7 fl a b s k)
  show ?case
  proof (cases "m fl a s k")
    case None
    with 7(4) have "m fl b s k = Some res" by simp
    from 7(2) [OF None 7(3) this 7(5)] show ?thesis by (auto simp: keeps_def)
  next
    case (Some x)
    with 7(4) have "m fl a s k = Some res" by simp
    from 7(1) [OF 7(3) this 7(5)] show ?thesis by (auto simp: keeps_def)
  qed
next
  case (8 fl mn mx g r s k)
  let ?k' = "\<lambda>s'. m fl (Rep (mn - 1) (map_option (\<lambda>x. x - 1) mx) g r) s' k"
  let ?k0 = "\<lambda>s'. if shorter (rest s') (rest s) then m fl (Rep 0 (map_option (\<lambda>x. x - 1) mx) g r) s' k else None"
  note ab = 8(7) and suf = 8(9)
  show ?case
  proof (cases "mx = Some 0")
    case True
    with 8(8) have "k s = Some res" by auto
    with True show ?thesis by (auto intro: exI [of _ s])
  next
    case nz: False
    show ?thesis
    proof (cases "0 < mn")
      case True
      with nz 8(8) have "m fl r s ?k' = Some res" by simp
      from 8(2) [OF nz True ab this suf] obtain s1 where
        nb: "\<not> blocked l r" and s1: "?k' s1 = Some res" "keeps l n r s s1" by blast
      from keeps_suffix [OF s1(2) suf] have suf1: "suffix (rest s1) html" .
      from 8(1) [OF nz True ab s1(1) suf1] obtain s2 where s2: "k s2 = Some res"
        "keeps l n (Rep (mn - 1) (map_option (\<lambda>x. x - 1) mx) g r) s1 s2" by blast
      from s1(2) s2(2) have "keeps l n (Rep mn mx g r) s s2"
        by (auto simp: keeps_def intro: suffix_order.trans)
      with s2(1) nb show ?thesis by auto
    next
      case mn0: False
      have iter: "m fl r s ?k0 = Some res \<Longrightarrow> \<exists>s'. k s' = Some res \<and> keeps l n (Rep mn mx g r) s s'" if gg: "g" for gg
      proof -
        assume a: "m fl r s ?k0 = Some res"
        from 8(4) [OF nz mn0 that ab a suf] obtain s1 where s1: "?k0 s1 = Some res" "keeps l n r s s1"
          by blast
        then have sh: "shorter (rest s1) (rest s)" and rec: "m fl (Rep 0 (map_option (\<lambda>x. x - 1) mx) g r) s1 k = Some res"
          by (auto split: if_splits)
        from keeps_suffix [OF s1(2) suf] have suf1: "suffix (rest s1) html" .
        from 8(3) [OF nz mn0 that sh ab rec suf1] obtain s2 where "k s2 = Some res"
          "keeps l n (Rep 0 (map_option (\<lambda>x. x - 1) mx) g r) s1 s2"
          by blast
        with s1(2) show ?thesis by (auto simp: keeps_def intro: suffix_order.trans)
      qed
      have iterl: "m fl r s ?k0 = Some res \<Longrightarrow> k s = None \<Longrightarrow> \<exists>s'. k s' = Some res \<and> keeps l n (Rep mn mx g r) s s'" if gg: "\<not> g" for gg
      proof -
        assume a: "m fl r s ?k0 = Some res" and kn: "k s = None"
        from 8(6) [OF nz mn0 that kn ab a suf] obtain s1 where s1: "?k0 s1 = Some res" "keeps l n r s s1"
          by blast
        then have sh: "shorter (rest s1) (rest s)" and rec: "m fl (Rep 0 (map_option (\<lambda>x. x - 1) mx) g r) s1 k = Some res"
          by (auto split: if_splits)
        from keeps_suffix [OF s1(2) suf] have suf1: "suffix (rest s1) html" .
        from 8(5) [OF nz mn0 that kn sh ab rec suf1] obtain s2 where "k s2 = Some res"
          "keeps l n (Rep 0 (map_option (\<lambda>x. x - 1) mx) g r) s1 s2"
          by blast
        with s1(2) show ?thesis by (auto simp: keeps_def intro: suffix_order.trans)
      qed
      have unf: "m fl (Rep mn mx g r) s k =
          (if g then (case m fl r s ?k0 of Some res \<Rightarrow> Some res | None \<Rightarrow> k s)
           else (case k s of Some res \<Rightarrow> Some res | None \<Rightarrow> m fl r s ?k0))"
        by (subst m.simps) (simp only: nz mn0 if_False)
      from 8(8) have e: "(if g then (case m fl r s ?k0 of Some res \<Rightarrow> Some res | None \<Rightarrow> k s)
           else (case k s of Some res \<Rightarrow> Some res | None \<Rightarrow> m fl r s ?k0)) = Some res"
        by (simp only: unf)
      have "\<exists>s'. k s' = Some res \<and> keeps l n (Rep mn mx g r) s s'"
      proof (cases g)
        case True
        with e have e1: "(case m fl r s ?k0 of Some res \<Rightarrow> Some res | None \<Rightarrow> k s) = Some res"
          by (simp only: if_True)
        show ?thesis
        proof (cases "m fl r s ?k0")
          case None
          with e1 have "k s = Some res" by (simp only: option.case)
          then show ?thesis by (intro exI [of _ s]) simp
        next
          case (Some x)
          with e1 have "m fl r s ?k0 = Some res" by (simp only: option.case)
          with iter [OF True] show ?thesis by blast
        qed
      next
        case False
        with e have e1: "(case k s of Some res \<Rightarrow> Some res | None \<Rightarrow> m fl r s ?k0) = Some res"
          by (simp only: if_False)
        show ?thesis
        proof (cases "k s")
          case None
          with e1 have "m fl r s ?k0 = Some res" by (simp only: option.case)
          with iterl [OF False] None show ?thesis by blast
        next
          case (Some x)
          with e1 have "k s = Some res" by (simp only: option.case)
          then show ?thesis by (intro exI [of _ s]) simp
        qed
      qed
      with mn0 show ?thesis by simp
    qed
  qed
next
  case (9 fl j r inp p c k)
  let ?k' = "\<lambda>s'. k (MS (rest s') (prevc s') ((j, consumed inp (rest s')) # caps s'))"
  from 9(3) have "m fl r (MS inp p c) ?k' = Some res" by simp
  from 9(1) [OF 9(2) this 9(4)] obtain s1 where
    nb: "\<not> blocked l r" and s1: "?k' s1 = Some res" "keeps l n r (MS inp p c) s1" by blast
  from s1(2) have "keeps l n (Grp j r) (MS inp p c) (MS (rest s1) (prevc s1) ((j, consumed inp (rest s1)) # caps s1))"
    by (auto simp: keeps_def)
  with s1(1) nb show ?case by auto
next
  case (10 fl j inp p c k)
  show ?case
  proof (cases "map_of c j")
    case None
    with 10 have "k (MS inp p c) = Some res" by simp
    then show ?thesis by (auto intro: exI [of _ "MS inp p c"])
  next
    case (Some t)
    with 10 obtain inp' p' where s: "strip_lit (icase fl) t inp p = Some (inp', p')" and k: "k (MS inp' p' c) = Some res"
      by (auto split: option.splits)
    from strip_lit_suffix [OF s] have "keeps l n (Ref j) (MS inp p c) (MS inp' p' c)"
      by (auto simp: keeps_def suffix_def)
    with k show ?thesis by auto
  qed
next
  case (11 fl r s k)
  then have "k s = Some res" by (auto split: option.splits)
  then show ?case by (auto intro: exI [of _ s])
next
  case (12 fl s k)
  then have "k s = Some res" by (auto split: if_splits)
  then show ?case by (auto intro: exI [of _ s])
next
  case (13 fl s k)
  then have "k s = Some res" by (auto split: if_splits)
  then show ?case by (auto intro: exI [of _ s])
next
  case (14 fl s k)
  then have "k s = Some res" by (auto split: if_splits)
  then show ?case by (auto intro: exI [of _ s])
qed

lemma no_capture:
  assumes ex: "rx_exec eng fl r prev str = Inr (Some mt)"
    and ab: "absent (icase fl) l html" and suf: "suffix str html" and g: "guarded l n r"
  shows "grp mt n = None"
proof -
  from rx_exec_facts(4) [OF ex] obtain prev' inp res where
    i: "suffix inp str" and ms: "m fl r (MS inp prev' []) Some = Some res" and gr: "groups mt = caps res"
    by blast
  from i suf have "suffix (rest (MS inp prev' [])) html" by (auto intro: suffix_order.trans)
  from m_guard [OF ab ms this, of n] obtain s' where "Some s' = Some res" "keeps l n r (MS inp prev' []) s'"
    by blast
  with g have "n \<notin> fst ` set (caps res)" by (auto simp: keeps_def)
  then show ?thesis by (simp add: grp_def gr map_of_eq_None_iff)
qed

lemmas evaluation =
  js_def fl_none_def fl_i_def fl_is_def cls_match_def is_space_def is_word_def is_lower_def
  is_upper_def is_digit_def is_line_terminator_def rx_exec_def mk_match_def split_rx_def eq_unit_def
  canon_def grp_def dollar_def trim_def serverSideConvert_def defaultOptions_def tag_rx_def
  block_rx_def pair_rx_def link_rx_def img_rx_def img_src_rx_def open_rx_def any_tag_rx_def
  heading_repl_def blockquote_fn_def quot_def not_quot_def decodeHTMLEntities_def entities_def
  fromCharCode_def nearest_double_def parse_radix_def digit_val_def countWords_def consumed.simps
  replace_all_def replace_all_fn.simps ok_def when_opt_def attempt_def ample_def

section \<open>What the pattern-substitution path can raise\<close>




section \<open>Properties of the heading extractor\<close>

lemma guarded_alts: "\<forall>r \<in> set rs. guarded l n r \<Longrightarrow> guarded l n (alts rs)"
  by (induction rs rule: alts.induct) simp_all

lemma headings_rx_props:
  "always_sets 1 (headings_rx ls)" "always_sets 3 (headings_rx ls)" "consumes (headings_rx ls)"
  "guarded (js ''id='') 2 (headings_rx ls)"
  by (simp_all add: headings_rx_def js_def quot_def not_quot_def guarded_alts)

lemma heading_of_id:
  assumes ex: "rx_exec eng fl_i (headings_rx ls) prev str = Inr (Some mt)"
    and ab: "absent True (js ''id='') html" and suf: "suffix str html"
  shows "(\<exists>h. heading_of eng mt index = Inr h \<and> h_id h = js ''heading-'' @ show_nat index) \<or>
         (heading_of eng mt index = Inl RangeError \<and> \<not> quiet eng)"
proof -
  from rx_exec_facts(2) [OF ex headings_rx_props(1)] obtain g1 where g1: "grp mt 1 = Some g1" by blast
  from rx_exec_facts(2) [OF ex headings_rx_props(2)] obtain g3 where g3: "grp mt 3 = Some g3" by blast
  from ab have "absent (icase fl_i) (js ''id='') html" by (simp add: fl_i_def)
  from no_capture [OF ex this suf headings_rx_props(4)] have g2: "grp mt 2 = None" .
  show ?thesis
    using fine_replace_all [of eng fl_none any_tag_rx "\<lambda>mt. []" None g3]
    unfolding heading_of_def g1 g2 g3
    by (cases "replace_all eng fl_none any_tag_rx (\<lambda>mt. []) None g3") simp_all
qed

lemma extract_loop_ids:
  assumes ab: "absent True (js ''id='') html"
  shows "suffix str html \<Longrightarrow>
    (\<exists>hs. extract_loop eng (headings_rx ls) prev str index = Returns hs \<and>
          map h_id hs = map (\<lambda>i. js ''heading-'' @ show_nat i) [index ..< index + length hs]) \<or>
    (extract_loop eng (headings_rx ls) prev str index = Raises RangeError \<and> \<not> quiet eng)"
proof (induction "length str" arbitrary: prev str index rule: less_induct)
  case less
  let ?r = "headings_rx ls"
  show ?case
  proof (cases "rx_exec eng fl_i ?r prev str")
    case (Inl e)
    with fine_rx_exec [of eng fl_i ?r prev str] show ?thesis
      by (subst extract_loop.simps) simp
  next
    case (Inr found)
    show ?thesis
    proof (cases found)
      case None
      with Inr show ?thesis by (subst extract_loop.simps) simp
    next
      case (Some mt)
      with Inr have ex: "rx_exec eng fl_i ?r prev str = Inr (Some mt)" by simp
      from rx_exec_facts(3) [OF ex headings_rx_props(3)] have ne: "matched mt \<noteq> []" .
      from rx_exec_after(1) [OF ex] less.prems have suf: "suffix (after mt) html"
        by (auto intro: suffix_order.trans)
      note IH = less.hyps [OF rx_exec_after(2) [OF ex ne] suf, of "after_prev mt" "Suc index"]
      from heading_of_id [OF ex ab less.prems, of index] show ?thesis
      proof
        assume "heading_of eng mt index = Inl RangeError \<and> \<not> quiet eng"
        with ex show ?thesis by (subst extract_loop.simps) simp
      next
        assume "\<exists>h. heading_of eng mt index = Inr h \<and> h_id h = js ''heading-'' @ show_nat index"
        then obtain h where h: "heading_of eng mt index = Inr h" "h_id h = js ''heading-'' @ show_nat index"
          by blast
        from IH show ?thesis
        proof
          assume "extract_loop eng ?r (after_prev mt) (after mt) (Suc index) = Raises RangeError \<and> \<not> quiet eng"
          with ex h ne show ?thesis by (subst extract_loop.simps) simp
        next
          assume "\<exists>hs. extract_loop eng ?r (after_prev mt) (after mt) (Suc index) = Returns hs \<and>
            map h_id hs = map (\<lambda>i. js ''heading-'' @ show_nat i) [Suc index ..< Suc index + length hs]"
          then obtain hs where hs: "extract_loop eng ?r (after_prev mt) (after mt) (Suc index) = Returns hs"
            "map h_id hs = map (\<lambda>i. js ''heading-'' @ show_nat i) [Suc index ..< Suc index + length hs]"
            by blast
          have "extract_loop eng ?r prev str index = Returns (h # hs)"
            using ex h ne hs(1) by (subst extract_loop.simps) simp
          moreover have u: "[index ..< index + length (h # hs)] = index # [Suc index ..< Suc index + length hs]"
            by (simp add: upt_conv_Cons del: upt_Suc)
          have "map h_id (h # hs) =
              map (\<lambda>i. js ''heading-'' @ show_nat i) [index ..< index + length (h # hs)]"
            by (simp only: u list.map h(2) hs(2))
          ultimately show ?thesis by blast
        qed
      qed
    qed
  qed
qed

text \<open>
  Claim C2, as the code has it. The HTML text contains no \<open>id=\<close> (in any letter case), so
  that no element of it has an id attribute, and the level names are such that the
  \<open>RegExp\<close> constructor reads them as literals, as it does the names \<open>h1\<close> to \<open>h6\<close>. Then
  the extractor returns, unless the engine exhausts its stack, and each heading it returns
  carries the id \<open>heading-{index}\<close>, the index being the position of the heading in the
  result, from 0. No id is made from the text of the heading.
\<close>

theorem C2_heading_ids:
  assumes "compile (headings_source (levels_or_default levels)) = Inr (headings_rx (levels_or_default levels))"
    and "absent True (js ''id='') html"
  shows "(\<exists>hs. extractHeadings compile eng html levels = Returns hs \<and>
               map h_id hs = map (\<lambda>i. js ''heading-'' @ show_nat i) [0 ..< length hs]) \<or>
         (extractHeadings compile eng html levels = Raises RangeError \<and>
          (\<exists>fl r prev inp. eng fl r prev inp))"
  using extract_loop_ids [OF assms(2), of html eng "levels_or_default levels" None 0] assms(1)
  by (auto simp: extractHeadings_def quiet_def)

theorem C2_heading_ids_witness:
  "compile_levels [''h2'', ''h3'', ''h4''] (headings_source (levels_or_default None)) =
     Inr (headings_rx (levels_or_default None)) \<and>
   absent True (js ''id='') (js ''<h2>Hi there</h2><h3>More</h3>'') \<and>
   (\<exists>hs. extractHeadings (compile_levels [''h2'', ''h3'', ''h4'']) ample
           (js ''<h2>Hi there</h2><h3>More</h3>'') None = Returns hs \<and>
         map h_id hs = map (\<lambda>i. js ''heading-'' @ show_nat i) [0 ..< length hs])"
proof -
  have c: "compile_levels [''h2'', ''h3'', ''h4''] (headings_source (levels_or_default None)) =
     Inr (headings_rx (levels_or_default None))"
    by (simp add: compile_levels_def levels_or_default_def)
  have a: "absent True (js ''id='') (js ''<h2>Hi there</h2><h3>More</h3>'')"
    by (simp add: absent_def js_def eq_unit_def canon_def is_lower_def)
  have q: "\<not> (\<exists>fl r prev inp. ample fl r prev inp)" by (simp add: ample_def)
  from C2_heading_ids [where compile = "compile_levels [''h2'', ''h3'', ''h4'']" and levels = None
      and eng = ample, OF c a] q c a
  show ?thesis by blast
qed

text \<open>
  The claim as stated has the id synthesized by the slug function from the text of a heading
  without id attribute. For \<open><h2>Hi there</h2>\<close> the slug is \<open>hi-there\<close>, not empty, and the
  id returned is \<open>heading-0\<close>.
\<close>

theorem C2_no_slug_counterexample:
  "extractHeadings (compile_levels [''h2'', ''h3'', ''h4'']) ample (js ''<h2>Hi there</h2>'') None =
     Returns [\<lparr>h_id = js ''heading-0'', h_text = js ''Hi there'', h_level = Some 2\<rparr>] \<and>
   generateSlug ample (js ''Hi there'') 0 = Inr (js ''hi-there'') \<and>
   js ''heading-0'' \<noteq> js ''hi-there''"
proof -
  have "extractHeadings (compile_levels [''h2'', ''h3'', ''h4'']) ample (js ''<h2>Hi there</h2>'') None =
     Returns [\<lparr>h_id = js ''heading-0'', h_text = js ''Hi there'', h_level = Some 2\<rparr>]"
    by (simp add: extractHeadings_def levels_or_default_def compile_levels_def extract_loop.simps
          headings_rx_def heading_of_def parseInt_charAt1_def show_nat_def evaluation)
  moreover have "generateSlug ample (js ''Hi there'') 0 = Inr (js ''hi-there'')"
    by (simp add: generateSlug_def slug_of_def toLowerCase_def lower_unit_def hyphen_def evaluation)
  moreover have "js ''heading-0'' \<noteq> js ''hi-there''"
    by (simp add: js_def)
  ultimately show ?thesis by blast
qed

text \<open>
  An id attribute of an ordinary heading is not captured: the \<open>[^>]*\<close> before the optional
  id group is greedy and reads the attribute, so the group matches nothing and the heading
  gets its numbered id.
\<close>

lemma extractHeadings_id_attribute_example:
  "extractHeadings (compile_levels [''h2'', ''h3'', ''h4'']) ample
     (js ''<h2 id=\"intro\">Introduction</h2>'') None =
     Returns [\<lparr>h_id = js ''heading-0'', h_text = js ''Introduction'', h_level = Some 2\<rparr>]"
  by (simp add: extractHeadings_def levels_or_default_def compile_levels_def extract_loop.simps
        headings_rx_def heading_of_def parseInt_charAt1_def show_nat_def evaluation)

section \<open>Properties of the assembled document\<close>



lemma bnd_eq_Inl: "bnd x f = Inl e \<longleftrightarrow> x = Inl e \<or> (\<exists>v. x = Inr v \<and> f v = Inl e)"
  by (cases x) simp_all








section \<open>Properties of the Markdown route handler\<close>

text \<open>
  Claim C9. For every slug (a missing slug is the empty string), the handler answers 404
  with the plain-text body \<open>Content not found\<close> exactly when the lookup returns \<open>null\<close>. When
  the lookup returns a record and \<open>generateMarkdown\<close> returns for it, the handler answers 200
  with Content-Type \<open>text/markdown; charset=utf-8\<close> and the \<open>markdown\<close> field of that result
  as body.
\<close>

theorem C9_markdown_by_slug:
  "(createMarkdownHandler window eng options slug =
      \<lparr>status = 404, headers = [(''Content-Type'', js ''text/plain'')],
       body = BText (js ''Content not found'')\<rparr> \<longleftrightarrow>
    getContent options (case slug of None \<Rightarrow> [] | Some sl \<Rightarrow> sl) = Inr None) \<and>
   (status (createMarkdownHandler window eng options slug) = 404 \<longleftrightarrow>
    getContent options (case slug of None \<Rightarrow> [] | Some sl \<Rightarrow> sl) = Inr None) \<and>
   (getContent options (case slug of None \<Rightarrow> [] | Some sl \<Rightarrow> sl) = Inr (Some c) \<and>
    generateMarkdown window eng c = Inr out \<longrightarrow>
      status (createMarkdownHandler window eng options slug) = 200 \<and>
      map_of (headers (createMarkdownHandler window eng options slug)) ''Content-Type'' =
        Some (js ''text/markdown; charset=utf-8'') \<and>
      body (createMarkdownHandler window eng options slug) = BText (markdown out))"
  by (auto simp: createMarkdownHandler_def error_response_def generateMarkdownString_def
        markdown_headers_def split: sum.splits option.splits)

theorem C9_markdown_by_slug_witness:
  "createMarkdownHandler None ample
     \<lparr>getContent = (\<lambda>sl. if sl = js ''a'' then Inr (Some
         \<lparr>title = js ''T'', content = [], excerpt = None, url = Some (js ''u''), date = None,
          modifiedDate = None, author = None, categories = None, tags = None, promptPrefix = None,
          image = None, readingTime = None\<rparr>) else Inr None),
      cacheControl = None, cors = None\<rparr> (Some (js ''zz'')) =
     \<lparr>status = 404, headers = [(''Content-Type'', js ''text/plain'')],
      body = BText (js ''Content not found'')\<rparr> \<and>
   generateMarkdown None ample
     \<lparr>title = js ''T'', content = [], excerpt = None, url = Some (js ''u''), date = None,
      modifiedDate = None, author = None, categories = None, tags = None, promptPrefix = None,
      image = None, readingTime = None\<rparr> =
     Inr \<lparr>markdown = js ''# T\<newline>\<newline>---\<newline>- **Source**: u\<newline>---'', wordCount = 3,
          out_readingTime = Num 1, headings = [\<lparr>hid = js ''t'', htext = js ''T'', level = 1\<rparr>]\<rparr> \<and>
   status (createMarkdownHandler None ample
     \<lparr>getContent = (\<lambda>sl. if sl = js ''a'' then Inr (Some
         \<lparr>title = js ''T'', content = [], excerpt = None, url = Some (js ''u''), date = None,
          modifiedDate = None, author = None, categories = None, tags = None, promptPrefix = None,
          image = None, readingTime = None\<rparr>) else Inr None),
      cacheControl = None, cors = None\<rparr> (Some (js ''a''))) = 200 \<and>
   body (createMarkdownHandler None ample
     \<lparr>getContent = (\<lambda>sl. if sl = js ''a'' then Inr (Some
         \<lparr>title = js ''T'', content = [], excerpt = None, url = Some (js ''u''), date = None,
          modifiedDate = None, author = None, categories = None, tags = None, promptPrefix = None,
          image = None, readingTime = None\<rparr>) else Inr None),
      cacheControl = None, cors = None\<rparr> (Some (js ''a''))) =
     BText (js ''# T\<newline>\<newline>---\<newline>- **Source**: u\<newline>---'')"
proof -
  let ?c = "\<lparr>title = js ''T'', content = [], excerpt = None, url = Some (js ''u''), date = None,
      modifiedDate = None, author = None, categories = None, tags = None, promptPrefix = None,
      image = None, readingTime = None\<rparr>"
  let ?o = "\<lparr>getContent = (\<lambda>sl. if sl = js ''a'' then Inr (Some ?c) else Inr None),
      cacheControl = None, cors = None\<rparr>"
  let ?out = "\<lparr>markdown = js ''# T\<newline>\<newline>---\<newline>- **Source**: u\<newline>---'', wordCount = 3,
          out_readingTime = Num 1, headings = [\<lparr>hid = js ''t'', htext = js ''T'', level = 1\<rparr>]\<rparr>"
  have g: "generateMarkdown None ample ?c = Inr ?out"
    by (simp add: generateMarkdown_def assemble_def body_section_def metadata_section_def head_section_def
      statements_def push_def push_if_def truthy_def has_length_def embed_def join_def
      calculateReadingTime_def ceil_div_def extractMarkdownHeadings_def heading_line_rx_def
      generateSlug_def slug_of_def toLowerCase_def lower_unit_def hyphen_def evaluation)
  have n: "getContent ?o (case Some (js ''zz'') of None \<Rightarrow> [] | Some sl \<Rightarrow> sl) = Inr None"
    by (simp add: js_def)
  have y: "getContent ?o (case Some (js ''a'') of None \<Rightarrow> [] | Some sl \<Rightarrow> sl) = Inr (Some ?c)"
    by simp
  note a = C9_markdown_by_slug [of None ample ?o "Some (js ''zz'')"]
  note b = C9_markdown_by_slug [of None ample ?o "Some (js ''a'')" ?c ?out]
  from a n have 1: "createMarkdownHandler None ample ?o (Some (js ''zz'')) =
     \<lparr>status = 404, headers = [(''Content-Type'', js ''text/plain'')],
      body = BText (js ''Content not found'')\<rparr>" by blast
  from b y g have 2: "status (createMarkdownHandler None ample ?o (Some (js ''a''))) = 200"
    "body (createMarkdownHandler None ample ?o (Some (js ''a''))) = BText (markdown ?out)" by blast+
  from 1 2 g show ?thesis by simp
qed

section \<open>Properties of the text metrics\<close>



lemma unit_Cls:
  "m fl (Cls neg items) (MS inp pv c) k =
     (case inp of [] \<Rightarrow> None | u # us \<Rightarrow> if cls_match (icase fl) neg items u then k (MS us (Some u) c) else None)"
  by (cases inp) simp_all

lemma unit_Str:
  "m fl (Str [ch]) (MS inp pv c) k =
     (case inp of [] \<Rightarrow> None | u # us \<Rightarrow> if eq_unit (icase fl) ch u then k (MS us (Some u) c) else None)"
  by (cases inp) simp_all



lemma attempt_ample [simp]: "attempt ample fl r prev inp = Inr (m fl r (MS inp prev []) Some)"
  by (simp add: attempt_def ample_def)



lemma replace_all_fn_skip:
  assumes "attempt eng fl r prev (u # us) = Inr None"
  shows "replace_all_fn eng fl r (\<lambda>mt. Inr rep) prev (u # us) =
         map_sum id (Cons u) (replace_all_fn eng fl r (\<lambda>mt. Inr rep) (Some u) us)"
proof (cases "rx_search eng fl r (Some u) us")
  case (Inl e)
  with assms show ?thesis
    by (subst replace_all_fn.simps, subst (2) replace_all_fn.simps) (simp add: rx_exec_def)
next
  case (Inr found)
  show ?thesis
  proof (cases found)
    case None
    with Inr assms show ?thesis
      by (subst replace_all_fn.simps, subst (2) replace_all_fn.simps) (simp add: rx_exec_def)
  next
    case (Some x)
    obtain sk s' where x: "x = (sk, s')" by (cases x)
    with Some Inr assms show ?thesis
      by (subst replace_all_fn.simps, subst (2) replace_all_fn.simps)
         (auto simp: rx_exec_def mk_match_def split: list.splits sum.splits)
  qed
qed












section \<open>The two conversion strategies on an anchor that spans lines\<close>

text \<open>
  Claim C6 at the input \<open><a href="/d">\<close>, a line with \<open>R m\<close>, \<open></a>\<close>. The link pattern of
  the pattern-substitution strategy has no \<open>s\<close> flag, so its \<open>(.*?)\<close> does not cross the
  line feeds: the anchor is not converted, its tags are stripped, and the Markdown \<open>R m\<close> has
  2 words. The structural strategy converts the anchor of the parsed document, and the
  Markdown \<open>[\<close>, \<open>R m\<close>, \<open>](/d)\<close> has 3 words. Neither text contains an entity.
\<close>

theorem C6_multiline_anchor_word_counts:
  "serverSideConvert ample (js ''<a href=\"/d\">\<newline>R m\<newline></a>'') defaultOptions = Inr (js ''R m'') \<and>
   decodeHTMLEntities ample (js ''R m'') = Inr (js ''R m'') \<and>
   countWords ample (js ''R m'') = Inr 2 \<and>
   convertNode ample defaultOptions None
     (Element ''body'' [] [Element ''a'' [(''href'', js ''/d'')] [Text (js ''\<newline>R m\<newline>'')]]) =
     Inr (js ''[\<newline>R m\<newline>](/d)'') \<and>
   decodeHTMLEntities ample (js ''[\<newline>R m\<newline>](/d)'') = Inr (js ''[\<newline>R m\<newline>](/d)'') \<and>
   countWords ample (js ''[\<newline>R m\<newline>](/d)'') = Inr 3"
proof -
  have "serverSideConvert ample (js ''<a href=\"/d\">\<newline>R m\<newline></a>'') defaultOptions = Inr (js ''R m'')"
    by (simp add: evaluation)
  moreover have "decodeHTMLEntities ample (js ''R m'') = Inr (js ''R m'')"
    by (simp add: evaluation)
  moreover have "countWords ample (js ''R m'') = Inr 2"
    by (simp add: evaluation)
  moreover have "convertNode ample defaultOptions None
     (Element ''body'' [] [Element ''a'' [(''href'', js ''/d'')] [Text (js ''\<newline>R m\<newline>'')]]) =
     Inr (js ''[\<newline>R m\<newline>](/d)'')"
    by (simp add: convertElement_def defaultOptions_def getAttribute_def js_def)
  moreover have "decodeHTMLEntities ample (js ''[\<newline>R m\<newline>](/d)'') = Inr (js ''[\<newline>R m\<newline>](/d)'')"
    by (simp add: evaluation)
  moreover have "countWords ample (js ''[\<newline>R m\<newline>](/d)'') = Inr 3"
    by (simp add: evaluation)
  ultimately show ?thesis by blast
qed

section \<open>The heading id of the TOC hook on a slug cut behind a hyphen\<close>

text \<open>
  A global \<open>replace\<close> copies a run of the letter \<open>a\<close> when its pattern matches at no position
  that starts with that letter, as is the case of the four patterns of the slug chain.
\<close>

lemma replace_all_skip_run:
  assumes no: "\<And>pv ys. m fl r (MS (97 # ys) pv []) Some = None"
  shows "replace_all ample fl r (\<lambda>mt. rep) prev (replicate n 97 @ ys) =
         map_sum id (append (replicate n 97))
           (replace_all ample fl r (\<lambda>mt. rep) (if n = 0 then prev else Some 97) ys)"
proof (induction n arbitrary: prev)
  case 0
  show ?case by (cases "replace_all ample fl r (\<lambda>mt. rep) prev ys") simp_all
next
  case (Suc n)
  have "attempt ample fl r prev (97 # replicate n 97 @ ys) = Inr None"
    by (simp add: no del: m.simps)
  from replace_all_fn_skip [OF this, of rep] Suc [of "Some 97"] show ?case
    by (cases "replace_all ample fl r (\<lambda>mt. rep) (if n = 0 then Some 97 else Some 97) ys")
       (simp_all add: replace_all_def)
qed

lemma toLowerCase_run: "toLowerCase (replicate n 97 @ ys) = replicate n 97 @ toLowerCase ys"
  by (induction n) (simp_all add: toLowerCase_def lower_unit_def is_upper_def)

lemma no1: "m fl_none (Cls True [range CHR ''a'' CHR ''z'', range CHR ''0'' CHR ''9'', CSpace, CChr 45])
             (MS (97 # ys) pv []) Some = None"
  by (simp add: cls_match_def fl_none_def)

lemma no2: "m fl_none (plus (Cls False [CSpace])) (MS (97 # ys) pv []) Some = None"
  by (simp add: cls_match_def fl_none_def is_space_def)

lemma no3: "m fl_none (plus hyphen) (MS (97 # ys) pv []) Some = None"
  by (simp add: hyphen_def js_def fl_none_def eq_unit_def)

lemma no4: "m fl_none (Alt (Seq Bol (plus hyphen)) (Seq (plus hyphen) Eol)) (MS (97 # ys) pv []) Some = None"
  by (simp add: hyphen_def js_def fl_none_def eq_unit_def)

lemma lower_tails: "toLowerCase [32, 98] = [32, 98]" "toLowerCase [45] = [45]"
  by (simp_all add: toLowerCase_def lower_unit_def is_upper_def)

lemma slug_a:
  "slug_of ample (replicate 49 97 @ [32, 98]) = Inr (replicate 49 97 @ [45, 98])"
proof -
  have s1: "replace_all ample fl_none
      (Cls True [range CHR ''a'' CHR ''z'', range CHR ''0'' CHR ''9'', CSpace, CChr 45])
      (\<lambda>mt. []) None (replicate 49 97 @ [32, 98]) = Inr (replicate 49 97 @ [32, 98])"
    by (subst replace_all_skip_run [OF no1]) (simp add: evaluation)
  have s2: "replace_all ample fl_none (plus (Cls False [CSpace])) (\<lambda>mt. js ''-'') None
      (replicate 49 97 @ [32, 98]) = Inr (replicate 49 97 @ [45, 98])"
    by (subst replace_all_skip_run [OF no2]) (simp add: evaluation)
  have s3: "replace_all ample fl_none (plus hyphen) (\<lambda>mt. js ''-'') None
      (replicate 49 97 @ [45, 98]) = Inr (replicate 49 97 @ [45, 98])"
    by (subst replace_all_skip_run [OF no3]) (simp add: hyphen_def evaluation)
  have s4: "replace_all ample fl_none (Alt (Seq Bol (plus hyphen)) (Seq (plus hyphen) Eol)) (\<lambda>mt. []) None
      (replicate 49 97 @ [45, 98]) = Inr (replicate 49 97 @ [45, 98])"
    by (subst replace_all_skip_run [OF no4]) (simp add: hyphen_def evaluation)
  show ?thesis
    by (simp only: slug_of_def toLowerCase_run lower_tails s1 s2 s3 s4 bnd.simps)
qed

lemma slug_b:
  "slug_of ample (replicate 49 97 @ [45]) = Inr (replicate 49 97)"
proof -
  have s1: "replace_all ample fl_none
      (Cls True [range CHR ''a'' CHR ''z'', range CHR ''0'' CHR ''9'', CSpace, CChr 45])
      (\<lambda>mt. []) None (replicate 49 97 @ [45]) = Inr (replicate 49 97 @ [45])"
    by (subst replace_all_skip_run [OF no1]) (simp add: evaluation)
  have s2: "replace_all ample fl_none (plus (Cls False [CSpace])) (\<lambda>mt. js ''-'') None
      (replicate 49 97 @ [45]) = Inr (replicate 49 97 @ [45])"
    by (subst replace_all_skip_run [OF no2]) (simp add: evaluation)
  have s3: "replace_all ample fl_none (plus hyphen) (\<lambda>mt. js ''-'') None
      (replicate 49 97 @ [45]) = Inr (replicate 49 97 @ [45])"
    by (subst replace_all_skip_run [OF no3]) (simp add: hyphen_def evaluation)
  have s4: "replace_all ample fl_none (Alt (Seq Bol (plus hyphen)) (Seq (plus hyphen) Eol)) (\<lambda>mt. []) None
      (replicate 49 97 @ [45]) = Inr (replicate 49 97)"
    by (subst replace_all_skip_run [OF no4]) (simp add: hyphen_def evaluation)
  show ?thesis
    by (simp only: slug_of_def toLowerCase_run lower_tails s1 s2 s3 s4 bnd.simps)
qed

text \<open>
  Claim C5 at the text of 49 letters \<open>a\<close>, a space and the letter \<open>b\<close>. Its slug has 51 code
  units, \<open>a...a-b\<close>; \<open>generateHeadingId\<close> cuts it to 50, which leaves the hyphen at the end.
  Applied to that result, the function trims the hyphen: the second result, 49 letters \<open>a\<close>,
  is not the first. \<open>generateSlug\<close>, which does not truncate, returns the whole slug.
\<close>

theorem C5_heading_id_twice:
  "generateHeadingId ample (replicate 49 97 @ js '' b'') 0 = Inr (replicate 49 97 @ js ''-'') \<and>
   generateHeadingId ample (replicate 49 97 @ js ''-'') 0 = Inr (replicate 49 97) \<and>
   replicate 49 97 @ js ''-'' \<noteq> replicate 49 (97::nat) \<and>
   generateSlug ample (replicate 49 97 @ js '' b'') 0 = Inr (replicate 49 97 @ js ''-b'')"
proof -
  have j: "js '' b'' = [32, 98]" "js ''-'' = [45]" "js ''-b'' = [45, 98]" by (simp_all add: js_def)
  show ?thesis
    unfolding j by (simp add: generateHeadingId_def generateSlug_def slug_a slug_b)
qed

end
